theory Spec2Isabelle
  imports Main "HOL-Library.Word" "HOL-Library.Sublist"
begin

section \<open>Go runtime outcomes\<close>

text \<open>
  A Go function of this repository either returns or panics. Errors are ordinary return
  values; a panic unwinds the call. Both are values of the model.
\<close>

datatype error =
    LibError string                 \<comment> \<open>an error value produced by os, yaml, defaults or net\<close>
  | FoundDuplicatedRecord string    \<comment> \<open>"found duplicated record: %s"\<close>
  | ReadingConfigFile error         \<comment> \<open>"reading config file: %s"\<close>
  | ParsingConfigFile error         \<comment> \<open>"parsing config file: %s"\<close>
  | SettingDefaults error           \<comment> \<open>"setting defaults: %s"\<close>
  | IntervalsNotPositive            \<comment> \<open>"intervals (icmp,mtr,tcp,http_get) must be >0"\<close>
  | MaxHopsOutOfBounds              \<comment> \<open>"mtr.max-hops must be between 0 and 65500"\<close>
  | CountOutOfBounds                \<comment> \<open>"mtr.count must be between 0 and 65500"\<close>

datatype panic =
    PanicError error                \<comment> \<open>panic(err)\<close>
  | AssignmentToNilMap              \<comment> \<open>assignment to entry in nil map\<close>
  | IndexOutOfRange                 \<comment> \<open>index out of range\<close>
  | SliceBoundsOutOfRange           \<comment> \<open>slice bounds out of range\<close>
  | NilPointerDereference           \<comment> \<open>invalid memory address or nil pointer dereference\<close>

datatype 'a go = Panic panic | Ret 'a

section \<open>config/config.go: data model\<close>

text \<open>
  One element of \<^verbatim>\<open>Targets\<close>. A Go slice is either nil or a (possibly empty) list:
  \<open>Probe = None\<close> is the nil slice (the key is absent from the YAML document),
  \<open>Probe = Some []\<close> an empty, non-nil slice (\<^verbatim>\<open>probe: []\<close>).
\<close>

record Target =
  Name :: string
  Host :: string
  Type :: string
  Proxy :: string
  Probe :: "string list option"
  SourceIp :: string
  Labels :: "string \<rightharpoonup> string"

text \<open>\<^verbatim>\<open>duration\<close> is \<^verbatim>\<open>time.Duration\<close>, a count of nanoseconds; it is only compared with 0.\<close>

type_synonym duration = int

record HTTPGet =
  Interval :: duration
  Timeout :: duration

record TCP =
  Interval :: duration
  Timeout :: duration

record MTR =
  Interval :: duration
  Timeout :: duration
  MaxHops :: int
  Count :: int

record ICMP =
  Interval :: duration
  Timeout :: duration
  Count :: int

record Conf =
  Refresh :: duration
  Nameserver :: string
  NameserverTimeout :: duration

record Config =
  Conf :: Conf
  ICMP :: ICMP
  MTR :: MTR
  TCP :: TCP
  HTTPGet :: HTTPGet
  Targets :: "Target list"

text \<open>\<^verbatim>\<open>SafeConfig.Cfg\<close> is a pointer: \<open>None\<close> is nil (nothing loaded yet).\<close>

record SafeConfig =
  Cfg :: "Config option"

section \<open>The regular expression of the type check\<close>

text \<open>
  \<^verbatim>\<open>regexp.MustCompile("^ICMP|MTR|ICMP+MTR|TCP|HTTPGet$")\<close>. The syntax tree below is the
  one Go's parser builds: alternation binds weakest, so \<^verbatim>\<open>^\<close> belongs to the first
  alternative only and \<^verbatim>\<open>$\<close> to the last only, and \<^verbatim>\<open>+\<close> is the quantifier
  "one or more" applied to the preceding \<^verbatim>\<open>P\<close>.
\<close>

datatype regexp =
    BeginText
  | EndText
  | Literal string
  | Concat regexp regexp
  | Alternate regexp regexp
  | Plus regexp

text \<open>
  \<open>match_ends r s i\<close> lists the positions \<open>j\<close> such that \<open>r\<close> matches the part of \<open>s\<close>
  from position \<open>i\<close> up to \<open>j\<close>. Repetition is iterated at most \<open>length s + 1\<close> times,
  which reaches every position of \<open>s\<close>.
\<close>

fun iterate_ends :: "nat \<Rightarrow> (nat \<Rightarrow> nat list) \<Rightarrow> nat list \<Rightarrow> nat list" where
  "iterate_ends 0 f js = []"
| "iterate_ends (Suc n) f js = (let ks = concat (map f js) in ks @ iterate_ends n f ks)"

fun match_ends :: "regexp \<Rightarrow> string \<Rightarrow> nat \<Rightarrow> nat list" where
  "match_ends BeginText s i = (if i = 0 then [i] else [])"
| "match_ends EndText s i = (if i = length s then [i] else [])"
| "match_ends (Literal w) s i =
     (if i + length w \<le> length s \<and> take (length w) (drop i s) = w then [i + length w] else [])"
| "match_ends (Concat a b) s i = concat (map (\<lambda>j. match_ends b s j) (match_ends a s i))"
| "match_ends (Alternate a b) s i = match_ends a s i @ match_ends b s i"
| "match_ends (Plus a) s i = iterate_ends (Suc (length s)) (\<lambda>j. match_ends a s j) [i]"

text \<open>\<^verbatim>\<open>MatchString\<close> searches: the expression may match at any position of the string.\<close>

definition MatchString :: "regexp \<Rightarrow> string \<Rightarrow> bool" where
  "MatchString r s = list_ex (\<lambda>i. match_ends r s i \<noteq> []) [0..<Suc (length s)]"

definition re :: regexp where
  "re = Alternate (Concat BeginText (Literal ''ICMP''))
       (Alternate (Literal ''MTR'')
       (Alternate (Concat (Literal ''ICM'') (Concat (Plus (Literal ''P'')) (Literal ''MTR'')))
       (Alternate (Literal ''TCP'')
                  (Concat (Literal ''HTTPGet'') EndText))))"

section \<open>String helpers of the standard library\<close>

text \<open>\<^verbatim>\<open>strings.Split(s, sep)\<close> for a one-byte separator; \<^verbatim>\<open>Split("", ".")\<close> is \<^verbatim>\<open>[""]\<close>.\<close>

fun Split :: "string \<Rightarrow> char \<Rightarrow> string list" where
  "Split [] c = [[]]"
| "Split (x # xs) c =
     (if x = c then [] # Split xs c
      else (case Split xs c of [] \<Rightarrow> [[x]] | p # ps \<Rightarrow> (x # p) # ps))"

text \<open>
  \<^verbatim>\<open>strings.EqualFold\<close> on ASCII text. The source calls it with the first argument equal
  to \<^verbatim>\<open>"TCP"\<close>, and no rune outside ASCII folds to t, c or p.
\<close>

definition ToLower :: "char \<Rightarrow> char" where
  "ToLower c = (if 65 \<le> (of_char c :: nat) \<and> (of_char c :: nat) \<le> 90
                then char_of ((of_char c :: nat) + 32) else c)"

definition EqualFold :: "string \<Rightarrow> string \<Rightarrow> bool" where
  "EqualFold s t = (map ToLower s = map ToLower t)"

text \<open>
  \<^verbatim>\<open>strings.Split(t.Host, ".")[1][1:]\<close>: indexing the second part panics when there is
  none, and slicing from 1 panics on the empty string.
\<close>

definition srv_proto :: "string \<Rightarrow> string go" where
  "srv_proto h =
     (let parts = Split h CHR ''.'' in
      if length parts \<le> 1 then Panic IndexOutOfRange
      else if parts ! 1 = [] then Panic SliceBoundsOutOfRange
      else Ret (tl (parts ! 1)))"

section \<open>config/config.go: HasDuplicateTargets\<close>

text \<open>
  \<^verbatim>\<open>tmp\<close> is a \<^verbatim>\<open>map[string]map[string]bool\<close>. Reading \<^verbatim>\<open>tmp[a][b]\<close> yields false when
  either key is missing (a missing outer key gives the nil map, and reading a nil map
  gives the zero value). The assignment \<^verbatim>\<open>tmp[a][b] = true\<close> panics when \<^verbatim>\<open>tmp[a]\<close> is
  the nil map.
\<close>

type_synonym namespaces = "string \<rightharpoonup> (string \<rightharpoonup> bool)"

definition tmp_new :: namespaces where
  "tmp_new = [''TCP'' \<mapsto> Map.empty, ''ICMP'' \<mapsto> Map.empty,
              ''MTR'' \<mapsto> Map.empty, ''HTTPGet'' \<mapsto> Map.empty]"

definition tmp_get :: "namespaces \<Rightarrow> string \<Rightarrow> string \<Rightarrow> bool" where
  "tmp_get tmp a b =
     (case tmp a of None \<Rightarrow> False
      | Some names \<Rightarrow> (case names b of None \<Rightarrow> False | Some v \<Rightarrow> v))"

definition tmp_set :: "namespaces \<Rightarrow> string \<Rightarrow> string \<Rightarrow> namespaces go" where
  "tmp_set tmp a b =
     (case tmp a of None \<Rightarrow> Panic AssignmentToNilMap
      | Some names \<Rightarrow> Ret (tmp(a \<mapsto> names(b \<mapsto> True))))"

fun dup_loop :: "namespaces \<Rightarrow> Target list \<Rightarrow> (bool \<times> error option) go" where
  "dup_loop tmp [] = Ret (False, None)"
| "dup_loop tmp (t # m) =
     (if Type t = ''ICMP+MTR'' then
        if tmp_get tmp ''MTR'' (Name t) then Ret (True, Some (FoundDuplicatedRecord (Name t)))
        else (case tmp_set tmp ''MTR'' (Name t) of
                Panic p \<Rightarrow> Panic p
              | Ret tmp1 \<Rightarrow>
                  if tmp_get tmp1 ''ICMP'' (Name t)
                  then Ret (True, Some (FoundDuplicatedRecord (Name t)))
                  else (case tmp_set tmp1 ''ICMP'' (Name t) of
                          Panic p \<Rightarrow> Panic p
                        | Ret tmp2 \<Rightarrow> dup_loop tmp2 m))
      else
        if tmp_get tmp (Type t) (Name t) then Ret (True, Some (FoundDuplicatedRecord (Name t)))
        else (case tmp_set tmp (Type t) (Name t) of
                Panic p \<Rightarrow> Panic p
              | Ret tmp1 \<Rightarrow> dup_loop tmp1 m))"

definition HasDuplicateTargets :: "Target list \<Rightarrow> (bool \<times> error option) go" where
  "HasDuplicateTargets m = dup_loop tmp_new m"

section \<open>config/config.go: ReloadConfig\<close>

text \<open>
  What \<^verbatim>\<open>ReloadConfig\<close> takes from outside this repository: the operating system, the
  YAML decoder, the defaults library and the two helpers of \<^verbatim>\<open>pkg/common\<close>.
\<close>

record world =
  os_Hostname :: "error + string"
  os_Open :: "string \<Rightarrow> error + string"
  yaml_Decode :: "string \<Rightarrow> error + Config"
  defaults_Set :: "Config \<Rightarrow> error + Config"
  SrvRecordCheck :: "string \<Rightarrow> bool"
  SrvRecordHosts :: "string \<Rightarrow> error + string list"

text \<open>The three \<^verbatim>\<open>logger.Error\<close> calls of the loop, with the fields they report.\<close>

datatype log =
    UnknownCheckType string string
  | SrvProtoMismatch string string string
  | SrvRecordError string error

text \<open>
  The inner loop over \<^verbatim>\<open>t.Probe\<close>. Its \<^verbatim>\<open>continue\<close> is the last statement of the body,
  so every element equal to the hostname appends the target once more.
\<close>

fun probe_loop :: "string \<Rightarrow> Target \<Rightarrow> string list \<Rightarrow> Target list \<Rightarrow> Target list" where
  "probe_loop hostname t [] targets = targets"
| "probe_loop hostname t (p # ps) targets =
     (if p = hostname then probe_loop hostname t ps (targets @ [t])
      else probe_loop hostname t ps targets)"

definition probe_filter :: "string \<Rightarrow> Target \<Rightarrow> Target list \<Rightarrow> Target list" where
  "probe_filter hostname t targets =
     (case Probe t of None \<Rightarrow> targets @ [t]
      | Some ps \<Rightarrow> probe_loop hostname t ps targets)"

text \<open>The loop over the hosts of an SRV record.\<close>

fun srv_loop :: "string \<Rightarrow> Target \<Rightarrow> string list \<Rightarrow> Target list \<Rightarrow> Target list" where
  "srv_loop hostname t [] targets = targets"
| "srv_loop hostname t (srvTarget # rest) targets =
     srv_loop hostname t rest
       (probe_filter hostname (t\<lparr>Name := srvTarget, Host := srvTarget\<rparr>) targets)"

definition srv_expand ::
  "world \<Rightarrow> string \<Rightarrow> Target \<Rightarrow> Target list \<Rightarrow> log list \<Rightarrow> (Target list \<times> log list) go" where
  "srv_expand w hostname t targets logs =
     (case SrvRecordHosts w (Host t) of
        Inl err \<Rightarrow> Ret (targets, logs @ [SrvRecordError (Host t) err])
      | Inr srv_record_hosts \<Rightarrow> Ret (srv_loop hostname t srv_record_hosts targets, logs))"

text \<open>One iteration of the loop over \<^verbatim>\<open>c.Targets\<close>.\<close>

definition target_body ::
  "world \<Rightarrow> string \<Rightarrow> Target \<Rightarrow> Target list \<Rightarrow> log list \<Rightarrow> (Target list \<times> log list) go" where
  "target_body w hostname t targets logs =
     (if SrvRecordCheck w (Host t) then
        if \<not> MatchString re (Type t)
        then Ret (targets, logs @ [UnknownCheckType (Name t) (Type t)])
        else if Type t = ''TCP'' then
          (case srv_proto (Host t) of
             Panic p \<Rightarrow> Panic p
           | Ret proto \<Rightarrow>
               if \<not> EqualFold (Type t) proto
               then Ret (targets, logs @ [SrvProtoMismatch (Name t) (Type t) proto])
               else srv_expand w hostname t targets logs)
        else srv_expand w hostname t targets logs
      else
        if \<not> MatchString re (Type t)
        then Ret (targets, logs @ [UnknownCheckType (Name t) (Type t)])
        else Ret (probe_filter hostname t targets, logs))"

fun targets_loop ::
  "world \<Rightarrow> string \<Rightarrow> Target list \<Rightarrow> Target list \<Rightarrow> log list \<Rightarrow> (Target list \<times> log list) go" where
  "targets_loop w hostname [] targets logs = Ret (targets, logs)"
| "targets_loop w hostname (t # ts) targets logs =
     (case target_body w hostname t targets logs of
        Panic p \<Rightarrow> Panic p
      | Ret (targets', logs') \<Rightarrow> targets_loop w hostname ts targets' logs')"

text \<open>The checks after the loop, on the configuration with the filtered targets.\<close>

definition precheck :: "Config \<Rightarrow> error option" where
  "precheck c =
     (if ICMP.Interval (ICMP c) \<le> 0 \<or> MTR.Interval (MTR c) \<le> 0
         \<or> TCP.Interval (TCP c) \<le> 0 \<or> HTTPGet.Interval (HTTPGet c) \<le> 0
      then Some IntervalsNotPositive
      else if MaxHops (MTR c) < 0 \<or> MaxHops (MTR c) > 65500 then Some MaxHopsOutOfBounds
      else if MTR.Count (MTR c) < 0 \<or> MTR.Count (MTR c) > 65500 then Some CountOutOfBounds
      else None)"

definition install :: "SafeConfig \<Rightarrow> Config \<Rightarrow> error option go \<times> SafeConfig" where
  "install sc c =
     (case HasDuplicateTargets (Targets c) of
        Panic p \<Rightarrow> (Panic p, sc)
      | Ret (_, Some err) \<Rightarrow> (Ret (Some (ParsingConfigFile err)), sc)
      | Ret (_, None) \<Rightarrow>
          (case precheck c of
             Some err \<Rightarrow> (Ret (Some err), sc)
           | None \<Rightarrow> (Ret None, sc\<lparr>Cfg := Some c\<rparr>)))"

text \<open>
  \<^verbatim>\<open>ReloadConfig\<close> returns its error (or panics), and leaves the receiver and the log
  behind. Log records written before a panic are not tracked.
\<close>

definition ReloadConfig ::
  "world \<Rightarrow> SafeConfig \<Rightarrow> string \<Rightarrow> error option go \<times> SafeConfig \<times> log list" where
  "ReloadConfig w sc confFile =
     (case os_Hostname w of
        Inl err \<Rightarrow> (Panic (PanicError err), sc, [])
      | Inr hostname \<Rightarrow>
     (case os_Open w confFile of
        Inl err \<Rightarrow> (Ret (Some (ReadingConfigFile err)), sc, [])
      | Inr f \<Rightarrow>
     (case yaml_Decode w f of
        Inl err \<Rightarrow> (Ret (Some (ParsingConfigFile err)), sc, [])
      | Inr c0 \<Rightarrow>
     (case defaults_Set w c0 of
        Inl err \<Rightarrow> (Ret (Some (SettingDefaults err)), sc, [])
      | Inr c \<Rightarrow>
     (case targets_loop w hostname (Targets c) [] [] of
        Panic p \<Rightarrow> (Panic p, sc, [])
      | Ret (targets, logs) \<Rightarrow>
          (case install sc (c\<lparr>Targets := targets\<rparr>) of
             (r, sc') \<Rightarrow> (r, sc', logs)))))))"

section \<open>target/target_ping.go\<close>

text \<open>
  Modelled from the spec: \<^verbatim>\<open>ping.PingResult\<close> is declared in \<^verbatim>\<open>pkg/ping\<close>, which is not
  among the sources. The spec's CumulativeResult has windowed fields, filled afresh by
  each cycle, and three counters (samples sent, samples failed, elapsed time), which
  \<^verbatim>\<open>ping\<close> reads and writes as \<^verbatim>\<open>SntSummary\<close>, \<^verbatim>\<open>SntFailSummary\<close> and
  \<^verbatim>\<open>SntTimeSummary\<close>. The windowed fields are one value of any type. The counters are
  Go integers: 64 bits wide on the amd64 and arm64 targets, two's complement, and
  \<^verbatim>\<open>+=\<close> wraps around.
\<close>

record 'a PingResult =
  Window :: 'a
  SntSummary :: "64 word"
  SntFailSummary :: "64 word"
  SntTimeSummary :: "64 word"

text \<open>
  The data fields of \<^verbatim>\<open>PING\<close>. \<open>result\<close> is a pointer (\<open>None\<close> is nil). The channel,
  the wait group and the goroutines are in the scheduler state below.
\<close>

record 'a PING =
  name :: string
  host :: string
  ip :: string
  srcAddr :: string
  interval :: duration
  timeout :: duration
  count :: int
  ipv6 :: bool
  labels :: "string \<rightharpoonup> string"
  result :: "'a PingResult option"

definition MaxConcurrentJobs :: nat where
  "MaxConcurrentJobs = 3"

text \<open>
  \<^verbatim>\<open>ping\<close>, from the point where \<^verbatim>\<open>ping.Ping\<close> has returned \<open>data\<close> (its error is only
  logged). The body runs under the write lock, so it is one atomic step. Reading a
  field through a nil pointer panics.
\<close>

definition ping :: "'a PingResult option \<Rightarrow> 'a PING \<Rightarrow> 'a PING go" where
  "ping data t =
     (case data of
        None \<Rightarrow> Panic NilPointerDereference
      | Some d \<Rightarrow>
          (case result t of
             None \<Rightarrow> Panic NilPointerDereference
           | Some r \<Rightarrow>
               Ret (t\<lparr>result := Some (d\<lparr>
                 SntSummary := SntSummary d + SntSummary r,
                 SntFailSummary := SntFailSummary d + SntFailSummary r,
                 SntTimeSummary := SntTimeSummary d + SntTimeSummary r\<rparr>)\<rparr>)))"

definition Compute :: "'a PING \<Rightarrow> 'a PingResult option" where
  "Compute t = (if result t = None then None else result t)"

text \<open>A run of sampling cycles, in the order in which they take the lock.\<close>

fun cycles :: "'a PingResult option list \<Rightarrow> 'a PING \<Rightarrow> 'a PING go" where
  "cycles [] t = Ret t"
| "cycles (data # rest) t =
     (case ping data t of Panic p \<Rightarrow> Panic p | Ret t' \<Rightarrow> cycles rest t')"

subsection \<open>The goroutines of one scheduler\<close>

text \<open>
  The state of one \<^verbatim>\<open>PING\<close> with its goroutines:
  \<^item> \<open>stop_closed\<close>: \<^verbatim>\<open>close(t.stop)\<close> has run;
  \<^item> \<open>wg\<close>: the counter of \<^verbatim>\<open>t.wg\<close>, 1 from \<^verbatim>\<open>NewPing\<close> until \<^verbatim>\<open>run\<close> calls \<^verbatim>\<open>Done\<close>;
  \<^item> \<open>waitChan\<close>: the number of tokens in the buffered channel of \<^verbatim>\<open>run\<close>;
  \<^item> \<open>probing\<close>: the goroutines started by \<^verbatim>\<open>run\<close> that have not yet finished \<^verbatim>\<open>t.ping()\<close>;
  \<^item> \<open>merged\<close>: those that have, and have not yet received from \<^verbatim>\<open>waitChan\<close>;
  \<^item> \<open>Stop_returned\<close>: a call of \<^verbatim>\<open>Stop\<close> has returned.
\<close>

record 'a scheduler =
  this :: "'a PING"
  stop_closed :: bool
  wg :: nat
  waitChan :: nat
  probing :: nat
  merged :: nat
  Stop_returned :: bool

text \<open>
  \<^verbatim>\<open>NewPing\<close>: the result starts as \<^verbatim>\<open>&ping.PingResult{}\<close>, all fields zero (\<open>zero\<close> for
  the windowed ones), the wait group at 1, and \<^verbatim>\<open>run\<close> is started. The startup delay only
  postpones the first tick.
\<close>

definition NewPing ::
  "'a \<Rightarrow> string \<Rightarrow> string \<Rightarrow> string \<Rightarrow> string \<Rightarrow> duration \<Rightarrow> duration \<Rightarrow> int
     \<Rightarrow> (string \<rightharpoonup> string) \<Rightarrow> bool \<Rightarrow> 'a scheduler" where
  "NewPing zero n h i src itv tmo cnt lbls v6 =
     \<lparr>this = \<lparr>name = n, host = h, ip = i, srcAddr = src, interval = itv, timeout = tmo,
               count = cnt, ipv6 = v6, labels = lbls,
               result = Some \<lparr>Window = zero, SntSummary = 0, SntFailSummary = 0,
                               SntTimeSummary = 0\<rparr>\<rparr>,
      stop_closed = False, wg = 1, waitChan = 0, probing = 0, merged = 0,
      Stop_returned = False\<rparr>"

text \<open>
  The atomic steps of the goroutines, one constructor each:
  \<^item> \<open>Tick\<close>: \<^verbatim>\<open>run\<close> takes the \<^verbatim>\<open>tick.C\<close> case, sends a token (possible only while the
    channel is not full) and starts a goroutine. When \<^verbatim>\<open>t.stop\<close> is closed too,
    \<^verbatim>\<open>select\<close> may still take this case.
  \<^item> \<open>Merge data\<close>: a started goroutine gets \<open>data\<close> from \<^verbatim>\<open>ping.Ping\<close> and runs the
    locked part of \<^verbatim>\<open>ping\<close>.
  \<^item> \<open>Release\<close>: that goroutine receives from \<^verbatim>\<open>waitChan\<close>.
  \<^item> \<open>Stop_close\<close>: \<^verbatim>\<open>Stop\<close> closes \<^verbatim>\<open>t.stop\<close> (closing it again panics).
  \<^item> \<open>Run_exit\<close>: \<^verbatim>\<open>run\<close> takes the \<^verbatim>\<open>t.stop\<close> case, calls \<^verbatim>\<open>t.wg.Done()\<close> and returns.
  \<^item> \<open>Stop_return\<close>: \<^verbatim>\<open>t.wg.Wait()\<close> returns, and \<^verbatim>\<open>Stop\<close> with it.
  \<open>step\<close> is \<open>None\<close> when the step cannot be taken in the state, or panics.
\<close>

datatype 'a event =
    Tick
  | Merge "'a PingResult option"
  | Release
  | Stop_close
  | Run_exit
  | Stop_return

fun step :: "'a event \<Rightarrow> 'a scheduler \<Rightarrow> 'a scheduler option" where
  "step Tick s =
     (if 0 < wg s \<and> waitChan s < MaxConcurrentJobs
      then Some (s\<lparr>waitChan := waitChan s + 1, probing := probing s + 1\<rparr>) else None)"
| "step (Merge data) s =
     (if 0 < probing s
      then (case ping data (this s) of
              Panic p \<Rightarrow> None
            | Ret t' \<Rightarrow> Some (s\<lparr>this := t', probing := probing s - 1, merged := merged s + 1\<rparr>))
      else None)"
| "step Release s =
     (if 0 < merged s \<and> 0 < waitChan s
      then Some (s\<lparr>merged := merged s - 1, waitChan := waitChan s - 1\<rparr>) else None)"
| "step Stop_close s =
     (if stop_closed s then None else Some (s\<lparr>stop_closed := True\<rparr>))"
| "step Run_exit s =
     (if stop_closed s \<and> 0 < wg s then Some (s\<lparr>wg := wg s - 1\<rparr>) else None)"
| "step Stop_return s =
     (if stop_closed s \<and> wg s = 0 then Some (s\<lparr>Stop_returned := True\<rparr>) else None)"

fun exec :: "'a event list \<Rightarrow> 'a scheduler \<Rightarrow> 'a scheduler option" where
  "exec [] s = Some s"
| "exec (e # es) s = (case step e s of None \<Rightarrow> None | Some s' \<Rightarrow> exec es s')"

section \<open>Notions used in the statements and proofs\<close>

text \<open>The five type strings that the configuration format documents.\<close>

definition known_types :: "string set" where
  "known_types = {''ICMP'', ''MTR'', ''ICMP+MTR'', ''TCP'', ''HTTPGet''}"

text \<open>The (namespace, name) entries that \<^verbatim>\<open>HasDuplicateTargets\<close> writes for a target.\<close>

definition slots :: "Target \<Rightarrow> (string \<times> string) list" where
  "slots t = (if Type t = ''ICMP+MTR'' then [(''MTR'', Name t), (''ICMP'', Name t)]
              else [(Type t, Name t)])"

text \<open>Two targets of the same name whose types share a namespace.\<close>

definition conflict :: "Target \<Rightarrow> Target \<Rightarrow> bool" where
  "conflict a b \<longleftrightarrow> Name a = Name b \<and>
     (Type a = Type b
      \<or> (Type a = ''ICMP+MTR'' \<and> (Type b = ''ICMP'' \<or> Type b = ''MTR''))
      \<or> (Type b = ''ICMP+MTR'' \<and> (Type a = ''ICMP'' \<or> Type a = ''MTR'')))"

definition taken :: "namespaces \<Rightarrow> (string \<times> string) set" where
  "taken tmp = {(a, b). tmp_get tmp a b}"

definition keys_ok :: "namespaces \<Rightarrow> bool" where
  "keys_ok tmp \<longleftrightarrow> dom tmp = {''TCP'', ''ICMP'', ''MTR'', ''HTTPGet''}"

text \<open>The number of \<open>Merge\<close> steps in a run.\<close>

fun merges :: "'a event list \<Rightarrow> nat" where
  "merges [] = 0"
| "merges (Merge data # es) = Suc (merges es)"
| "merges (e # es) = merges es"

text \<open>What holds in every state that the steps can reach from \<^verbatim>\<open>NewPing\<close>.\<close>

definition sched_inv :: "'a scheduler \<Rightarrow> bool" where
  "sched_inv s \<longleftrightarrow>
     probing s + merged s = waitChan s \<and> waitChan s \<le> MaxConcurrentJobs
   \<and> wg s \<le> 1 \<and> (wg s = 0 \<longrightarrow> stop_closed s) \<and> (Stop_returned s \<longrightarrow> wg s = 0)
   \<and> result (this s) \<noteq> None"

section \<open>Concrete inputs\<close>

text \<open>A target named db1 with a literal host, of the given type and probe list.\<close>

definition db1 :: "string \<Rightarrow> string list option \<Rightarrow> Target" where
  "db1 ty pr = \<lparr>Name = ''db1'', Host = ''10.0.0.1'', Type = ty, Proxy = '''', Probe = pr,
                SourceIp = '''', Labels = Map.empty\<rparr>"

text \<open>
  A decoded configuration with the default parameters of the struct tags (5s, 4s, 15s
  and 14s in nanoseconds, count 10), the given \<^verbatim>\<open>mtr.max-hops\<close> and the given targets.
\<close>

definition cfg :: "Target list \<Rightarrow> int \<Rightarrow> Config" where
  "cfg ts hops =
     \<lparr>Conf = \<lparr>Refresh = 0, Nameserver = '''', NameserverTimeout = 250000000\<rparr>,
      ICMP = \<lparr>ICMP.Interval = 5000000000, ICMP.Timeout = 4000000000, ICMP.Count = 10\<rparr>,
      MTR = \<lparr>MTR.Interval = 5000000000, MTR.Timeout = 4000000000, MTR.MaxHops = hops,
              MTR.Count = 10\<rparr>,
      TCP = \<lparr>TCP.Interval = 5000000000, TCP.Timeout = 4000000000\<rparr>,
      HTTPGet = \<lparr>HTTPGet.Interval = 15000000000, HTTPGet.Timeout = 14000000000\<rparr>,
      Targets = ts\<rparr>"

text \<open>
  A runner called probe1 whose configuration file decodes to \<open>c\<close>. The only SRV name is
  \<^verbatim>\<open>_http._tcp.example.com\<close>, and its lookup answers \<open>srv\<close>.
\<close>

definition world_of :: "Config \<Rightarrow> error + string list \<Rightarrow> world" where
  "world_of c srv =
     \<lparr>os_Hostname = Inr ''probe1'',
      os_Open = (\<lambda>_. Inr ''''),
      yaml_Decode = (\<lambda>_. Inr c),
      defaults_Set = (\<lambda>c'. Inr c'),
      SrvRecordCheck = (\<lambda>h. h = ''_http._tcp.example.com''),
      SrvRecordHosts = (\<lambda>_. srv)\<rparr>"

text \<open>A target named web whose host is that SRV name.\<close>

definition web :: "string \<Rightarrow> string list option \<Rightarrow> Target" where
  "web ty pr = \<lparr>Name = ''web'', Host = ''_http._tcp.example.com'', Type = ty, Proxy = '''',
                Probe = pr, SourceIp = '''', Labels = Map.empty\<rparr>"

text \<open>A receiver that holds a configuration from an earlier reload.\<close>

definition live :: SafeConfig where
  "live = \<lparr>Cfg = Some (cfg [db1 ''TCP'' None] 30)\<rparr>"

text \<open>
  A scheduler for db1, as \<^verbatim>\<open>NewPing\<close> returns it (no windowed fields), and three
  samples: ten packets sent in 1000 ns; one packet; and the largest count of a signed
  64-bit integer.
\<close>

definition sched0 :: "unit scheduler" where
  "sched0 = NewPing () ''db1'' ''10.0.0.1'' ''10.0.0.1'' '''' 5000000000 4000000000 10
              Map.empty False"

definition sample_ten :: "unit PingResult" where
  "sample_ten = \<lparr>Window = (), SntSummary = 10, SntFailSummary = 0, SntTimeSummary = 1000\<rparr>"

definition sample_one :: "unit PingResult" where
  "sample_one = \<lparr>Window = (), SntSummary = 1, SntFailSummary = 0, SntTimeSummary = 100\<rparr>"

definition sample_max :: "unit PingResult" where
  "sample_max = \<lparr>Window = (), SntSummary = 9223372036854775807, SntFailSummary = 0,
                 SntTimeSummary = 100\<rparr>"

text \<open>
  The state after one tick and a complete \<^verbatim>\<open>Stop\<close>, with the probe of that tick still
  running, and the state after that probe has merged \<open>sample_ten\<close>.
\<close>

definition stopped :: "unit scheduler" where
  "stopped = sched0\<lparr>stop_closed := True, wg := 0, waitChan := 1, probing := 1,
                     Stop_returned := True\<rparr>"

definition late :: "unit scheduler" where
  "late = stopped\<lparr>this := (this stopped)\<lparr>result := Some sample_ten\<rparr>,
                   probing := 0, merged := 1\<rparr>"

section \<open>Duplicate detection\<close>

lemma keys_ok_new: "keys_ok tmp_new"
  by (auto simp: keys_ok_def tmp_new_def split: if_splits)


lemma tmp_set_known:
  assumes "keys_ok tmp" and "a \<in> {''TCP'', ''ICMP'', ''MTR'', ''HTTPGet''}"
  shows "\<exists>tmp'. tmp_set tmp a b = Ret tmp' \<and> keys_ok tmp' \<and> taken tmp' = insert (a, b) (taken tmp)"
proof -
  from assms obtain names where n: "tmp a = Some names"
    unfolding keys_ok_def by blast
  let ?tmp' = "tmp(a \<mapsto> names(b \<mapsto> True))"
  have 1: "tmp_set tmp a b = Ret ?tmp'" by (simp add: tmp_set_def n)
  have 2: "keys_ok ?tmp'" using assms n unfolding keys_ok_def by auto
  have "tmp_get ?tmp' x y \<longleftrightarrow> (x, y) = (a, b) \<or> tmp_get tmp x y" for x y
    using n by (cases "x = a"; cases "y = b"; simp add: tmp_get_def)
  then have 3: "taken ?tmp' = insert (a, b) (taken tmp)"
    unfolding taken_def by auto
  from 1 2 3 show ?thesis by blast
qed

lemma tmp_get_taken: "tmp_get tmp a b \<longleftrightarrow> (a, b) \<in> taken tmp"
  by (simp add: taken_def)


lemma dup_loop_dup:
  "keys_ok tmp \<Longrightarrow> \<forall>t\<in>set m. Type t \<in> known_types \<Longrightarrow>
   \<not> (distinct (concat (map slots m)) \<and> set (concat (map slots m)) \<inter> taken tmp = {}) \<Longrightarrow>
   \<exists>t\<in>set m. dup_loop tmp m = Ret (True, Some (FoundDuplicatedRecord (Name t)))"
proof (induction m arbitrary: tmp)
  case Nil
  then show ?case by simp
next
  case (Cons t m)
  show ?case
  proof (cases "Type t = ''ICMP+MTR''")
    case True
    from Cons.prems(1) obtain tmp1 where 1: "tmp_set tmp ''MTR'' (Name t) = Ret tmp1"
      "keys_ok tmp1" "taken tmp1 = insert (''MTR'', Name t) (taken tmp)"
      using tmp_set_known[of tmp "''MTR''" "Name t"] by auto
    from 1(2) obtain tmp2 where 2: "tmp_set tmp1 ''ICMP'' (Name t) = Ret tmp2"
      "keys_ok tmp2" "taken tmp2 = insert (''ICMP'', Name t) (taken tmp1)"
      using tmp_set_known[of tmp1 "''ICMP''" "Name t"] by auto
    have s: "slots t = [(''MTR'', Name t), (''ICMP'', Name t)]" using True by (simp add: slots_def)
    show ?thesis
    proof (cases "(''MTR'', Name t) \<in> taken tmp \<or> (''ICMP'', Name t) \<in> taken tmp1")
      case True
      then show ?thesis using \<open>Type t = ''ICMP+MTR''\<close> 1(1) 2(1) by (auto simp: tmp_get_taken)
    next
      case False
      have "\<exists>u\<in>set m. dup_loop tmp2 m = Ret (True, Some (FoundDuplicatedRecord (Name u)))"
      proof (rule Cons.IH[OF 2(2)])
        show "\<forall>t\<in>set m. Type t \<in> known_types" using Cons.prems(2) by simp
        show "\<not> (distinct (concat (map slots m)) \<and> set (concat (map slots m)) \<inter> taken tmp2 = {})"
          using Cons.prems(3) False s 1(3) 2(3) by auto
      qed
      then show ?thesis using \<open>Type t = ''ICMP+MTR''\<close> 1(1) 2(1) False by (auto simp: tmp_get_taken)
    qed
  next
    case False
    have k: "Type t \<in> {''TCP'', ''ICMP'', ''MTR'', ''HTTPGet''}"
      using Cons.prems(2) False by (auto simp: known_types_def)
    from Cons.prems(1) k obtain tmp1 where 1: "tmp_set tmp (Type t) (Name t) = Ret tmp1"
      "keys_ok tmp1" "taken tmp1 = insert (Type t, Name t) (taken tmp)"
      using tmp_set_known[of tmp "Type t" "Name t"] by auto
    have s: "slots t = [(Type t, Name t)]" using False by (simp add: slots_def)
    show ?thesis
    proof (cases "(Type t, Name t) \<in> taken tmp")
      case True
      then show ?thesis using False by (auto simp: tmp_get_taken)
    next
      case nt: False
      have "\<exists>u\<in>set m. dup_loop tmp1 m = Ret (True, Some (FoundDuplicatedRecord (Name u)))"
      proof (rule Cons.IH[OF 1(2)])
        show "\<forall>t\<in>set m. Type t \<in> known_types" using Cons.prems(2) by simp
        show "\<not> (distinct (concat (map slots m)) \<and> set (concat (map slots m)) \<inter> taken tmp1 = {})"
          using Cons.prems(3) nt s 1(3) by auto
      qed
      then show ?thesis using False 1(1) nt by (auto simp: tmp_get_taken)
    qed
  qed
qed

lemma slots_conflict: "set (slots a) \<inter> set (slots b) \<noteq> {} \<longleftrightarrow> conflict a b"
  by (auto simp: slots_def conflict_def)

lemma distinct_slots: "distinct (slots t)"
  by (simp add: slots_def)

lemma distinct_slots_iff:
  "distinct (concat (map slots m)) \<longleftrightarrow>
   (\<forall>i j. i < j \<and> j < length m \<longrightarrow> \<not> conflict (m ! i) (m ! j))"
proof (induction m)
  case Nil
  then show ?case by simp
next
  case (Cons a m)
  have h: "set (slots a) \<inter> (\<Union>t\<in>set m. set (slots t)) = {} \<longleftrightarrow> (\<forall>j < length m. \<not> conflict a (m ! j))"
  proof -
    have "(\<forall>j < length m. \<not> conflict a (m ! j)) \<longleftrightarrow> (\<forall>t\<in>set m. \<not> conflict a t)"
      by (simp add: all_set_conv_all_nth)
    then show ?thesis by (auto simp: slots_conflict[symmetric])
  qed
  have "(\<forall>i j. i < j \<and> j < length (a # m) \<longrightarrow> \<not> conflict ((a # m) ! i) ((a # m) ! j)) \<longleftrightarrow>
        (\<forall>j < length m. \<not> conflict a (m ! j)) \<and> (\<forall>i j. i < j \<and> j < length m \<longrightarrow> \<not> conflict (m ! i) (m ! j))"
    (is "?L \<longleftrightarrow> ?A \<and> ?B")
  proof
    assume L: ?L
    have ?A using L[rule_format, of 0 "Suc j" for j] by auto
    moreover have ?B using L[rule_format, of "Suc i" "Suc j" for i j] by auto
    ultimately show "?A \<and> ?B" ..
  next
    assume AB: "?A \<and> ?B"
    show ?L
    proof (intro allI impI)
      fix i j assume ij: "i < j \<and> j < length (a # m)"
      then obtain j' where j': "j = Suc j'" by (cases j) auto
      show "\<not> conflict ((a # m) ! i) ((a # m) ! j)"
      proof (cases i)
        case 0
        then show ?thesis using AB ij j' by auto
      next
        case (Suc i')
        then show ?thesis using AB ij j' by auto
      qed
    qed
  qed
  moreover have "distinct (concat (map slots (a # m))) \<longleftrightarrow> ?A \<and> ?B"
    using Cons.IH h by (auto simp: distinct_slots)
  ultimately show ?case by blast
qed


lemma HasDuplicateTargets_dup:
  assumes "\<forall>t\<in>set m. Type t \<in> known_types"
    and "i < j" "j < length m" "conflict (m ! i) (m ! j)"
  shows "\<exists>t\<in>set m. HasDuplicateTargets m = Ret (True, Some (FoundDuplicatedRecord (Name t)))"
proof -
  have "\<not> distinct (concat (map slots m))"
    using assms(2-4) distinct_slots_iff[of m] by blast
  then show ?thesis
    unfolding HasDuplicateTargets_def
    using dup_loop_dup[OF keys_ok_new assms(1)] by blast
qed



section \<open>Reloading the configuration\<close>

subsection \<open>The filter loops\<close>

lemma probe_loop_replicate:
  "probe_loop hostname t ps targets = targets @ replicate (count_list ps hostname) t"
  by (induction ps arbitrary: targets) (simp_all add: replicate_append_same)

lemma probe_filter_None: "Probe t = None \<Longrightarrow> probe_filter hostname t targets = targets @ [t]"
  by (simp add: probe_filter_def)

lemma probe_filter_Some:
  "Probe t = Some ps \<Longrightarrow>
   probe_filter hostname t targets = targets @ replicate (count_list ps hostname) t"
  by (simp add: probe_filter_def probe_loop_replicate)

lemma probe_filter_acc: "probe_filter hostname t targets = targets @ probe_filter hostname t []"
  by (cases "Probe t") (simp_all add: probe_filter_None probe_filter_Some)

lemma srv_loop_concat:
  "srv_loop hostname t hosts targets =
   targets @ concat (map (\<lambda>s. probe_filter hostname (t\<lparr>Name := s, Host := s\<rparr>) []) hosts)"
proof (induction hosts arbitrary: targets)
  case Nil
  then show ?case by simp
next
  case (Cons s hosts)
  show ?case
    by (simp add: Cons.IH probe_filter_acc[of hostname "t\<lparr>Name := s, Host := s\<rparr>" targets])
qed

lemma srv_expand_acc:
  "srv_expand w hostname t targets logs =
   (case srv_expand w hostname t [] [] of
      Panic p \<Rightarrow> Panic p
    | Ret (a, b) \<Rightarrow> Ret (targets @ a, logs @ b))"
  by (simp add: srv_expand_def srv_loop_concat split: sum.splits)

lemma target_body_acc:
  "target_body w hostname t targets logs =
   (case target_body w hostname t [] [] of
      Panic p \<Rightarrow> Panic p
    | Ret (a, b) \<Rightarrow> Ret (targets @ a, logs @ b))"
proof (cases "MatchString re (Type t)")
  case False
  then show ?thesis by (simp add: target_body_def)
next
  case m: True
  show ?thesis
  proof (cases "SrvRecordCheck w (Host t)")
    case False
    then show ?thesis
      using m by (simp add: target_body_def probe_filter_acc[of hostname t targets])
  next
    case srv: True
    have e: "srv_expand w hostname t targets logs =
      (case srv_expand w hostname t [] [] of
        Panic p \<Rightarrow> Panic p
      | Ret (a, b) \<Rightarrow> Ret (targets @ a, logs @ b))"
      by (rule srv_expand_acc)
    show ?thesis
    proof (cases "Type t = ''TCP''")
      case False
      then show ?thesis using m srv e by (simp add: target_body_def)
    next
      case tcp: True
      show ?thesis
      proof (cases "srv_proto (Host t)")
        case (Panic p)
        then show ?thesis using m srv tcp by (simp add: target_body_def)
      next
        case (Ret proto)
        show ?thesis
        proof (cases "EqualFold (Type t) proto")
          case True
          have "target_body w hostname t targets logs = srv_expand w hostname t targets logs"
            "target_body w hostname t [] [] = srv_expand w hostname t [] []"
            using m srv tcp Ret True by (simp_all add: target_body_def)
          then show ?thesis using e by simp
        next
          case False
          have "target_body w hostname t targets logs
                  = Ret (targets, logs @ [SrvProtoMismatch (Name t) (Type t) proto])"
            "target_body w hostname t [] []
                  = Ret ([], [SrvProtoMismatch (Name t) (Type t) proto])"
            using m srv tcp Ret False by (simp_all add: target_body_def)
          then show ?thesis by simp
        qed
      qed
    qed
  qed
qed

lemma targets_loop_acc:
  "targets_loop w hostname ts targets logs =
   (case targets_loop w hostname ts [] [] of
      Panic p \<Rightarrow> Panic p
    | Ret (a, b) \<Rightarrow> Ret (targets @ a, logs @ b))"
proof (induction ts arbitrary: targets logs)
  case Nil
  then show ?case by simp
next
  case (Cons t ts)
  show ?case
  proof (cases "target_body w hostname t [] []")
    case (Panic p)
    then show ?thesis using target_body_acc[of w hostname t targets logs] by simp
  next
    case (Ret r)
    obtain a b where r: "r = (a, b)" by (cases r)
    have 1: "target_body w hostname t targets logs = Ret (targets @ a, logs @ b)"
      using target_body_acc[of w hostname t targets logs] Ret r by simp
    show ?thesis
    proof (cases "targets_loop w hostname ts [] []")
      case (Panic p)
      then show ?thesis
        using 1 Ret r Cons.IH[of "targets @ a" "logs @ b"] Cons.IH[of a b] by simp
    next
      case (Ret r2)
      obtain a2 b2 where r2: "r2 = (a2, b2)" by (cases r2)
      show ?thesis
        using 1 \<open>target_body w hostname t [] [] = Ret r\<close> r Ret r2
          Cons.IH[of "targets @ a" "logs @ b"] Cons.IH[of a b] by simp
    qed
  qed
qed

text \<open>
  The loop over a list with \<open>t\<close> in it, when it does not panic: the targets kept for the
  specs before \<open>t\<close>, then those kept for \<open>t\<close>, then those kept for the specs after it.
\<close>

lemma targets_loop_split:
  assumes "targets_loop w hostname (xs @ t # ys) [] [] = Ret (rs, lg)"
  shows "\<exists>A la K lk B lb.
           targets_loop w hostname xs [] [] = Ret (A, la)
         \<and> target_body w hostname t [] [] = Ret (K, lk)
         \<and> targets_loop w hostname ys [] [] = Ret (B, lb)
         \<and> rs = A @ K @ B \<and> lg = la @ lk @ lb"
  using assms
proof (induction xs arbitrary: rs lg)
  case Nil
  from Nil obtain K lk where k: "target_body w hostname t [] [] = Ret (K, lk)"
    and r: "targets_loop w hostname ys K lk = Ret (rs, lg)"
    by (auto split: go.splits)
  from r obtain B lb where "targets_loop w hostname ys [] [] = Ret (B, lb)"
    "rs = K @ B" "lg = lk @ lb"
    using targets_loop_acc[of w hostname ys K lk] by (auto split: go.splits prod.splits)
  with k show ?case by simp
next
  case (Cons x xs)
  from Cons.prems obtain X lx where x: "target_body w hostname x [] [] = Ret (X, lx)"
    by (auto split: go.splits)
  from Cons.prems x obtain rs' lg' where
    r: "targets_loop w hostname (xs @ t # ys) [] [] = Ret (rs', lg')"
    and e: "rs = X @ rs'" "lg = lx @ lg'"
    using targets_loop_acc[of w hostname "xs @ t # ys" X lx]
    by (auto split: go.splits prod.splits)
  from Cons.IH[OF r] obtain A la K lk B lb where
    i: "targets_loop w hostname xs [] [] = Ret (A, la)"
       "target_body w hostname t [] [] = Ret (K, lk)"
       "targets_loop w hostname ys [] [] = Ret (B, lb)"
       "rs' = A @ K @ B" "lg' = la @ lk @ lb"
    by blast
  have "targets_loop w hostname (x # xs) [] [] = Ret (X @ A, lx @ la)"
    using x i(1) targets_loop_acc[of w hostname xs X lx] by simp
  then show ?case using i e by auto
qed

lemma target_body_literal:
  assumes "\<not> SrvRecordCheck w (Host t)" and "MatchString re (Type t)"
  shows "target_body w hostname t targets logs = Ret (probe_filter hostname t targets, logs)"
  using assms by (simp add: target_body_def)

lemma target_body_srv:
  assumes "SrvRecordCheck w (Host t)" and "MatchString re (Type t)"
    and "Type t = ''TCP'' \<longrightarrow> (\<exists>proto. srv_proto (Host t) = Ret proto \<and> EqualFold (Type t) proto)"
    and "SrvRecordHosts w (Host t) = Inr hosts"
  shows "target_body w hostname t targets logs = Ret (srv_loop hostname t hosts targets, logs)"
  using assms by (auto simp: target_body_def srv_expand_def)

subsection \<open>ReloadConfig\<close>

lemma install_cases:
  "install sc c = (r, sc') \<Longrightarrow>
   (r = Ret None \<and> sc' = sc\<lparr>Cfg := Some c\<rparr>) \<or> (r \<noteq> Ret None \<and> sc' = sc)"
  by (auto simp: install_def split: go.splits prod.splits option.splits)

lemma ReloadConfig_loaded:
  assumes "os_Hostname w = Inr hostname" and "os_Open w confFile = Inr f"
    and "yaml_Decode w f = Inr c0" and "defaults_Set w c0 = Inr c"
    and "targets_loop w hostname (Targets c) [] [] = Ret (targets, logs)"
  shows "ReloadConfig w sc confFile =
    (fst (install sc (c\<lparr>Targets := targets\<rparr>)), snd (install sc (c\<lparr>Targets := targets\<rparr>)), logs)"
  using assms by (simp add: ReloadConfig_def split: prod.splits)

subsection \<open>What the regular expression accepts\<close>

lemma MatchString_iff: "MatchString r s \<longleftrightarrow> (\<exists>i\<le>length s. match_ends r s i \<noteq> [])"
  by (simp add: MatchString_def list_ex_iff Bex_def less_Suc_eq_le del: upt_Suc)

lemma Literal_at:
  "match_ends (Literal w) s i \<noteq> [] \<longleftrightarrow> (\<exists>a b. s = a @ w @ b \<and> length a = i)"
proof
  assume "match_ends (Literal w) s i \<noteq> []"
  then have l: "i + length w \<le> length s" and t: "take (length w) (drop i s) = w"
    by (auto split: if_splits)
  have "drop i s = take (length w) (drop i s) @ drop (length w) (drop i s)"
    by (rule append_take_drop_id[symmetric])
  then have "drop i s = w @ drop (length w) (drop i s)" using t by simp
  moreover have "s = take i s @ drop i s" by (rule append_take_drop_id[symmetric])
  ultimately have "s = take i s @ w @ drop (length w) (drop i s)" by simp
  moreover have "length (take i s) = i" using l by simp
  ultimately show "\<exists>a b. s = a @ w @ b \<and> length a = i" by blast
next
  assume "\<exists>a b. s = a @ w @ b \<and> length a = i"
  then show "match_ends (Literal w) s i \<noteq> []" by auto
qed

lemma Literal_at_le: "match_ends (Literal w) s i \<noteq> [] \<Longrightarrow> i \<le> length s"
  by (auto split: if_splits)

lemma Literal_sublist: "(\<exists>i. match_ends (Literal w) s i \<noteq> []) \<longleftrightarrow> sublist w s"
  unfolding Literal_at sublist_def by auto

lemma Concat_nonempty:
  "match_ends (Concat a b) s i \<noteq> [] \<longleftrightarrow> (\<exists>j\<in>set (match_ends a s i). match_ends b s j \<noteq> [])"
  by auto

lemma BeginText_Literal:
  "match_ends (Concat BeginText (Literal w)) s i \<noteq> [] \<longleftrightarrow> i = 0 \<and> prefix w s"
proof -
  have "match_ends (Concat BeginText (Literal w)) s i \<noteq> [] \<longleftrightarrow>
        i = 0 \<and> match_ends (Literal w) s 0 \<noteq> []"
    unfolding Concat_nonempty by auto
  also have "\<dots> \<longleftrightarrow> i = 0 \<and> prefix w s"
    unfolding Literal_at prefix_def by auto
  finally show ?thesis .
qed

lemma Literal_EndText:
  "(\<exists>i. match_ends (Concat (Literal w) EndText) s i \<noteq> []) \<longleftrightarrow> suffix w s"
proof
  assume "\<exists>i. match_ends (Concat (Literal w) EndText) s i \<noteq> []"
  then obtain i where 1: "match_ends (Literal w) s i \<noteq> []" and 2: "i + length w = length s"
    unfolding Concat_nonempty by (auto split: if_splits)
  from 1 obtain a b where "s = a @ w @ b" "length a = i" unfolding Literal_at by blast
  with 2 have "s = a @ w" by simp
  then show "suffix w s" by (simp add: suffix_def)
next
  assume "suffix w s"
  then obtain a where s: "s = a @ w" by (auto simp: suffix_def)
  have "match_ends (Concat (Literal w) EndText) s (length a) \<noteq> []"
    unfolding Concat_nonempty using s by simp
  then show "\<exists>i. match_ends (Concat (Literal w) EndText) s i \<noteq> []" ..
qed

lemma compound_sublist:
  assumes "match_ends (Concat a (Concat b (Literal w))) s i \<noteq> []"
  shows "sublist w s"
proof -
  from assms obtain k where "match_ends (Literal w) s k \<noteq> []"
    unfolding Concat_nonempty by blast
  then show ?thesis using Literal_sublist by blast
qed

text \<open>
  The expression accepts exactly the strings that begin with ICMP, contain MTR, contain
  TCP or end with HTTPGet.
\<close>

lemma MatchString_re:
  "MatchString re s \<longleftrightarrow>
   prefix ''ICMP'' s \<or> sublist ''MTR'' s \<or> sublist ''TCP'' s \<or> suffix ''HTTPGet'' s"
proof
  assume "MatchString re s"
  then obtain i where "match_ends re s i \<noteq> []" unfolding MatchString_iff by blast
  then consider
      "match_ends (Concat BeginText (Literal ''ICMP'')) s i \<noteq> []"
    | "match_ends (Literal ''MTR'') s i \<noteq> []"
    | "match_ends (Concat (Literal ''ICM'') (Concat (Plus (Literal ''P'')) (Literal ''MTR''))) s i \<noteq> []"
    | "match_ends (Literal ''TCP'') s i \<noteq> []"
    | "match_ends (Concat (Literal ''HTTPGet'') EndText) s i \<noteq> []"
    unfolding re_def match_ends.simps(5) append_is_Nil_conv by blast
  then show "prefix ''ICMP'' s \<or> sublist ''MTR'' s \<or> sublist ''TCP'' s \<or> suffix ''HTTPGet'' s"
  proof cases
    case 1
    then show ?thesis unfolding BeginText_Literal by simp
  next
    case 2
    then show ?thesis using Literal_sublist by blast
  next
    case 3
    then show ?thesis using compound_sublist by blast
  next
    case 4
    then show ?thesis using Literal_sublist by blast
  next
    case 5
    then show ?thesis using Literal_EndText by blast
  qed
next
  assume "prefix ''ICMP'' s \<or> sublist ''MTR'' s \<or> sublist ''TCP'' s \<or> suffix ''HTTPGet'' s"
  then consider "prefix ''ICMP'' s" | "sublist ''MTR'' s" | "sublist ''TCP'' s"
    | "suffix ''HTTPGet'' s" by blast
  then have "\<exists>i. i \<le> length s \<and> match_ends re s i \<noteq> []"
  proof cases
    case 1
    then have "match_ends (Concat BeginText (Literal ''ICMP'')) s 0 \<noteq> []"
      unfolding BeginText_Literal by simp
    then have "match_ends re s 0 \<noteq> []"
      unfolding re_def match_ends.simps(5) append_is_Nil_conv by blast
    then show ?thesis by blast
  next
    case 2
    then obtain i where i: "match_ends (Literal ''MTR'') s i \<noteq> []"
      using Literal_sublist by blast
    then have "match_ends re s i \<noteq> []"
      unfolding re_def match_ends.simps(5) append_is_Nil_conv by blast
    then show ?thesis using Literal_at_le[OF i] by blast
  next
    case 3
    then obtain i where i: "match_ends (Literal ''TCP'') s i \<noteq> []"
      using Literal_sublist by blast
    then have "match_ends re s i \<noteq> []"
      unfolding re_def match_ends.simps(5) append_is_Nil_conv by blast
    then show ?thesis using Literal_at_le[OF i] by blast
  next
    case 4
    then obtain i where i: "match_ends (Concat (Literal ''HTTPGet'') EndText) s i \<noteq> []"
      using Literal_EndText by blast
    then have "match_ends (Literal ''HTTPGet'') s i \<noteq> []"
      unfolding Concat_nonempty by (auto split: if_splits)
    then have "i \<le> length s" by (rule Literal_at_le)
    moreover have "match_ends re s i \<noteq> []"
      using i unfolding re_def match_ends.simps(5) append_is_Nil_conv by blast
    ultimately show ?thesis by blast
  qed
  then show "MatchString re s" unfolding MatchString_iff by blast
qed

lemma known_types_match: "ty \<in> known_types \<Longrightarrow> MatchString re ty"
  unfolding MatchString_re known_types_def
  by (auto simp: prefix_def suffix_def sublist_def intro: exI[of _ "[]"])

text \<open>
  C2. Whenever \<^verbatim>\<open>ReloadConfig\<close> does not return nil (it returns an error, or panics),
  the receiver is as it was before the call. When it returns nil, the hostname, the
  file, the decoder and the defaults have all succeeded, the loop has produced a target
  list, and \<^verbatim>\<open>Cfg\<close> is the decoded configuration with that target list.
\<close>

theorem ReloadConfig_error_keeps_Cfg:
  "(fst (ReloadConfig w sc confFile) \<noteq> Ret None
      \<longrightarrow> fst (snd (ReloadConfig w sc confFile)) = sc)
   \<and> (fst (ReloadConfig w sc confFile) = Ret None
      \<longrightarrow> (\<exists>hostname f c0 c targets logs.
            os_Hostname w = Inr hostname \<and> os_Open w confFile = Inr f
          \<and> yaml_Decode w f = Inr c0 \<and> defaults_Set w c0 = Inr c
          \<and> targets_loop w hostname (Targets c) [] [] = Ret (targets, logs)
          \<and> fst (snd (ReloadConfig w sc confFile)) = sc\<lparr>Cfg := Some (c\<lparr>Targets := targets\<rparr>)\<rparr>))"
proof (cases "os_Hostname w")
  case (Inl e)
  then show ?thesis by (simp add: ReloadConfig_def)
next
  case hn: (Inr hostname)
  show ?thesis
  proof (cases "os_Open w confFile")
    case (Inl e)
    then show ?thesis using hn by (simp add: ReloadConfig_def)
  next
    case op: (Inr f)
    show ?thesis
    proof (cases "yaml_Decode w f")
      case (Inl e)
      then show ?thesis using hn op by (simp add: ReloadConfig_def)
    next
      case de: (Inr c0)
      show ?thesis
      proof (cases "defaults_Set w c0")
        case (Inl e)
        then show ?thesis using hn op de by (simp add: ReloadConfig_def)
      next
        case df: (Inr c)
        show ?thesis
        proof (cases "targets_loop w hostname (Targets c) [] []")
          case (Panic p)
          then show ?thesis using hn op de df by (simp add: ReloadConfig_def)
        next
          case (Ret r)
          obtain targets logs where r: "r = (targets, logs)" by (cases r)
          let ?c = "c\<lparr>Targets := targets\<rparr>"
          have R: "ReloadConfig w sc confFile = (fst (install sc ?c), snd (install sc ?c), logs)"
            using ReloadConfig_loaded[OF hn op de df] Ret r by simp
          have "(fst (install sc ?c) = Ret None \<and> snd (install sc ?c) = sc\<lparr>Cfg := Some ?c\<rparr>)
              \<or> (fst (install sc ?c) \<noteq> Ret None \<and> snd (install sc ?c) = sc)"
            using install_cases[of sc ?c "fst (install sc ?c)" "snd (install sc ?c)"] by simp
          then show ?thesis
            using R hn op de df Ret r by auto
        qed
      qed
    qed
  qed
qed

theorem ReloadConfig_error_keeps_Cfg_witness:
  "fst (ReloadConfig (world_of (cfg [db1 ''ICMP'' None, db1 ''ICMP'' None] 30) (Inr [])) live ''network_exporter.yml'')
     = Ret (Some (ParsingConfigFile (FoundDuplicatedRecord ''db1'')))
   \<and> fst (snd (ReloadConfig (world_of (cfg [db1 ''ICMP'' None, db1 ''ICMP'' None] 30) (Inr [])) live ''network_exporter.yml'')) = live
   \<and> fst (ReloadConfig (world_of (cfg [db1 ''ICMP'' None] 30) (Inr [])) live ''network_exporter.yml'') = Ret None
   \<and> fst (snd (ReloadConfig (world_of (cfg [db1 ''ICMP'' None] 30) (Inr [])) live ''network_exporter.yml''))
     = live\<lparr>Cfg := Some (cfg [db1 ''ICMP'' None] 30)\<rparr>"
proof -
  let ?w2 = "world_of (cfg [db1 ''ICMP'' None, db1 ''ICMP'' None] 30) (Inr [])"
  let ?w1 = "world_of (cfg [db1 ''ICMP'' None] 30) (Inr [])"
  have m: "MatchString re ''ICMP''" by code_simp
  have b: "target_body w hostname (db1 ''ICMP'' None) targets logs
             = Ret (targets @ [db1 ''ICMP'' None], logs)"
    if "\<not> SrvRecordCheck w ''10.0.0.1''" for w hostname targets logs
    using that m by (simp add: target_body_def probe_filter_def db1_def)
  have e2: "fst (ReloadConfig ?w2 live ''network_exporter.yml'')
      = Ret (Some (ParsingConfigFile (FoundDuplicatedRecord ''db1'')))"
    by (simp add: ReloadConfig_def world_of_def cfg_def b install_def HasDuplicateTargets_def
        tmp_new_def tmp_get_def tmp_set_def db1_def[THEN arg_cong, of Name] db1_def[THEN arg_cong, of Type])
  have e1: "fst (ReloadConfig ?w1 live ''network_exporter.yml'') = Ret None"
    by (simp add: ReloadConfig_def world_of_def cfg_def b install_def HasDuplicateTargets_def
        tmp_new_def tmp_get_def tmp_set_def precheck_def db1_def[THEN arg_cong, of Name] db1_def[THEN arg_cong, of Type])
  have s2: "fst (snd (ReloadConfig ?w2 live ''network_exporter.yml'')) = live"
    using ReloadConfig_error_keeps_Cfg[of ?w2 live "''network_exporter.yml''", THEN conjunct1] e2
    by simp
  obtain hostname f c0 c targets logs where
    h: "os_Hostname ?w1 = Inr hostname" "os_Open ?w1 ''network_exporter.yml'' = Inr f"
       "yaml_Decode ?w1 f = Inr c0" "defaults_Set ?w1 c0 = Inr c"
       "targets_loop ?w1 hostname (Targets c) [] [] = Ret (targets, logs)"
       "fst (snd (ReloadConfig ?w1 live ''network_exporter.yml'')) = live\<lparr>Cfg := Some (c\<lparr>Targets := targets\<rparr>)\<rparr>"
    using ReloadConfig_error_keeps_Cfg[of ?w1 live "''network_exporter.yml''", THEN conjunct2] e1
    by blast
  have c: "c = cfg [db1 ''ICMP'' None] 30" using h(3,4) by (simp add: world_of_def)
  have "targets = [db1 ''ICMP'' None]"
    using h(5) unfolding c by (simp add: cfg_def b world_of_def)
  then have s1: "fst (snd (ReloadConfig ?w1 live ''network_exporter.yml''))
     = live\<lparr>Cfg := Some (cfg [db1 ''ICMP'' None] 30)\<rparr>"
    using h(6) c by (simp add: cfg_def)
  from e2 s2 e1 s1 show ?thesis by simp
qed

text \<open>
  C6. Once the file is read, decoded and given its defaults, the loop has returned and
  \<^verbatim>\<open>HasDuplicateTargets\<close> has returned no error: \<^verbatim>\<open>ReloadConfig\<close> returns an error if
  and only if one of the four intervals is not positive, or \<^verbatim>\<open>mtr.max-hops\<close> or
  \<^verbatim>\<open>mtr.count\<close> is below 0 or above 65500. With positive intervals, a max-hops of 70000
  gives the max-hops error; a max-hops of 30 does not, and the reload succeeds when the
  count is within its bounds too.
\<close>

theorem ReloadConfig_precheck:
  assumes "os_Hostname w = Inr hostname" and "os_Open w confFile = Inr f"
    and "yaml_Decode w f = Inr c0" and "defaults_Set w c0 = Inr c"
    and "targets_loop w hostname (Targets c) [] [] = Ret (targets, logs)"
    and "HasDuplicateTargets targets = Ret (b, None)"
  shows
    "((\<exists>err. fst (ReloadConfig w sc confFile) = Ret (Some err)) \<longleftrightarrow>
        ICMP.Interval (ICMP c) \<le> 0 \<or> MTR.Interval (MTR c) \<le> 0
      \<or> TCP.Interval (TCP c) \<le> 0 \<or> HTTPGet.Interval (HTTPGet c) \<le> 0
      \<or> MaxHops (MTR c) < 0 \<or> 65500 < MaxHops (MTR c)
      \<or> MTR.Count (MTR c) < 0 \<or> 65500 < MTR.Count (MTR c))
   \<and> (0 < ICMP.Interval (ICMP c) \<and> 0 < MTR.Interval (MTR c)
      \<and> 0 < TCP.Interval (TCP c) \<and> 0 < HTTPGet.Interval (HTTPGet c)
      \<longrightarrow> (MaxHops (MTR c) = 70000
            \<longrightarrow> fst (ReloadConfig w sc confFile) = Ret (Some MaxHopsOutOfBounds))
        \<and> (MaxHops (MTR c) = 30
            \<longrightarrow> fst (ReloadConfig w sc confFile) \<noteq> Ret (Some MaxHopsOutOfBounds)
              \<and> (0 \<le> MTR.Count (MTR c) \<and> MTR.Count (MTR c) \<le> 65500
                 \<longrightarrow> fst (ReloadConfig w sc confFile) = Ret None)))"
proof -
  let ?c = "c\<lparr>Targets := targets\<rparr>"
  have R: "fst (ReloadConfig w sc confFile) = fst (install sc ?c)"
    using ReloadConfig_loaded[OF assms(1-5)] by simp
  have I: "fst (install sc ?c) = Ret (precheck c)"
    using assms(6) by (simp add: install_def precheck_def split: option.splits)
  show ?thesis
    unfolding R I by (auto simp: precheck_def)
qed

theorem ReloadConfig_precheck_witness:
  "fst (ReloadConfig (world_of (cfg [db1 ''ICMP'' None] 70000) (Inr [])) live ''network_exporter.yml'')
     = Ret (Some MaxHopsOutOfBounds)
   \<and> fst (ReloadConfig (world_of (cfg [db1 ''ICMP'' None] 30) (Inr [])) live ''network_exporter.yml'')
     = Ret None"
proof -
  have m: "MatchString re ''ICMP''" by code_simp
  have l: "targets_loop (world_of (cfg [db1 ''ICMP'' None] hops) (Inr [])) ''probe1''
             (Targets (cfg [db1 ''ICMP'' None] hops)) [] [] = Ret ([db1 ''ICMP'' None], [])" for hops
    using m by (simp add: cfg_def world_of_def target_body_def probe_filter_def db1_def)
  have d: "HasDuplicateTargets [db1 ''ICMP'' None] = Ret (False, None)"
    by (simp add: HasDuplicateTargets_def tmp_new_def tmp_get_def tmp_set_def db1_def)
  have T: "0 < ICMP.Interval (ICMP (cfg [db1 ''ICMP'' None] hops))
         \<and> 0 < MTR.Interval (MTR (cfg [db1 ''ICMP'' None] hops))
         \<and> 0 < TCP.Interval (TCP (cfg [db1 ''ICMP'' None] hops))
         \<and> 0 < HTTPGet.Interval (HTTPGet (cfg [db1 ''ICMP'' None] hops))" for hops
    by (simp add: cfg_def)
  have M: "MaxHops (MTR (cfg [db1 ''ICMP'' None] hops)) = hops"
    "MTR.Count (MTR (cfg [db1 ''ICMP'' None] hops)) = 10" for hops
    by (simp_all add: cfg_def)
  have 1: "fst (ReloadConfig (world_of (cfg [db1 ''ICMP'' None] 70000) (Inr [])) live ''network_exporter.yml'')
     = Ret (Some MaxHopsOutOfBounds)"
    using ReloadConfig_precheck[of "world_of (cfg [db1 ''ICMP'' None] 70000) (Inr [])" "''probe1''"
      "''network_exporter.yml''" "''''" "cfg [db1 ''ICMP'' None] 70000" "cfg [db1 ''ICMP'' None] 70000"
      "[db1 ''ICMP'' None]" "[]" False live, OF _ _ _ _ l d] T[of 70000] M[of 70000]
    by (simp add: world_of_def)
  have 2: "fst (ReloadConfig (world_of (cfg [db1 ''ICMP'' None] 30) (Inr [])) live ''network_exporter.yml'')
     = Ret None"
    using ReloadConfig_precheck[of "world_of (cfg [db1 ''ICMP'' None] 30) (Inr [])" "''probe1''"
      "''network_exporter.yml''" "''''" "cfg [db1 ''ICMP'' None] 30" "cfg [db1 ''ICMP'' None] 30"
      "[db1 ''ICMP'' None]" "[]" False live, OF _ _ _ _ l d] T[of 30] M[of 30]
    by (simp add: world_of_def)
  from 1 2 show ?thesis by simp
qed

subsection \<open>Type validation\<close>

lemma tmp_new_unknown:
  "ty \<notin> {''TCP'', ''ICMP'', ''MTR'', ''HTTPGet''} \<Longrightarrow> tmp_new ty = None"
  by (simp add: tmp_new_def)

lemma HasDuplicateTargets_unknown:
  assumes "Type t \<notin> {''TCP'', ''ICMP'', ''MTR'', ''HTTPGet'', ''ICMP+MTR''}"
  shows "HasDuplicateTargets (t # m) = Panic AssignmentToNilMap"
proof -
  have "tmp_new (Type t) = None" using assms by (intro tmp_new_unknown) simp
  then show ?thesis
    using assms by (simp add: HasDuplicateTargets_def tmp_get_def tmp_set_def)
qed

text \<open>
  C3, at a type string outside the five documented ones. The string XMTR passes the
  check, so a target of that type is kept by the loop and no error is logged; the
  string FOO does not pass, and its target is dropped with one log record.
\<close>

theorem type_check_keeps_XMTR:
  "''XMTR'' \<notin> {''ICMP'', ''MTR'', ''ICMP+MTR'', ''TCP'', ''HTTPGet''}
   \<and> MatchString re ''XMTR''
   \<and> targets_loop (world_of (cfg [] 30) (Inr [])) ''probe1'' [db1 ''XMTR'' None] [] []
       = Ret ([db1 ''XMTR'' None], [])
   \<and> targets_loop (world_of (cfg [] 30) (Inr [])) ''probe1'' [db1 ''FOO'' None] [] []
       = Ret ([], [UnknownCheckType ''db1'' ''FOO''])"
proof -
  have 1: "MatchString re ''XMTR''" by code_simp
  have 2: "\<not> MatchString re ''FOO''" by code_simp
  show ?thesis
    using 1 2 by (simp add: world_of_def target_body_def probe_filter_def db1_def)
qed

text \<open>
  C9. A target whose type contains MTR and is neither one of the four map keys nor
  ICMP+MTR passes the type check. With a literal host and no probe list it reaches
  \<^verbatim>\<open>HasDuplicateTargets\<close>, whose assignment into the nil map panics, and so
  \<^verbatim>\<open>ReloadConfig\<close> panics and returns no error.
\<close>

theorem ReloadConfig_nil_map_panic:
  assumes "os_Hostname w = Inr hostname" and "os_Open w confFile = Inr f"
    and "yaml_Decode w f = Inr c0" and "defaults_Set w c0 = Inr c"
    and "Targets c = t # ts"
    and "targets_loop w hostname ts [] [] = Ret (rs, lg)"
    and "\<not> SrvRecordCheck w (Host t)" and "Probe t = None"
    and "sublist ''MTR'' (Type t)"
    and "Type t \<notin> {''TCP'', ''ICMP'', ''MTR'', ''HTTPGet'', ''ICMP+MTR''}"
  shows "MatchString re (Type t)
       \<and> targets_loop w hostname (Targets c) [] [] = Ret (t # rs, lg)
       \<and> HasDuplicateTargets (t # rs) = Panic AssignmentToNilMap
       \<and> ReloadConfig w sc confFile = (Panic AssignmentToNilMap, sc, lg)"
proof -
  have m: "MatchString re (Type t)" using assms(9) by (simp add: MatchString_re)
  have b: "target_body w hostname t [] [] = Ret ([t], [])"
    using target_body_literal[OF assms(7) m, of hostname "[]" "[]"] assms(8)
    by (simp add: probe_filter_None)
  have l: "targets_loop w hostname (Targets c) [] [] = Ret (t # rs, lg)"
    using b assms(5,6) targets_loop_acc[of w hostname ts "[t]" "[]"] by simp
  have d: "HasDuplicateTargets (t # rs) = Panic AssignmentToNilMap"
    by (rule HasDuplicateTargets_unknown[OF assms(10)])
  have "ReloadConfig w sc confFile = (Panic AssignmentToNilMap, sc, lg)"
    using ReloadConfig_loaded[OF assms(1-4) l, of sc] d by (simp add: install_def)
  with m l d show ?thesis by simp
qed

theorem ReloadConfig_nil_map_panic_witness:
  "MatchString re ''XMTR''
   \<and> HasDuplicateTargets [db1 ''XMTR'' None] = Panic AssignmentToNilMap
   \<and> ReloadConfig (world_of (cfg [db1 ''XMTR'' None] 30) (Inr [])) live ''network_exporter.yml''
       = (Panic AssignmentToNilMap, live, [])"
proof -
  have s: "sublist ''MTR'' (Type (db1 ''XMTR'' None))"
    unfolding sublist_def by (intro exI[of _ "''X''"] exI[of _ "[]"]) (simp add: db1_def)
  have "MatchString re (Type (db1 ''XMTR'' None))
       \<and> targets_loop (world_of (cfg [db1 ''XMTR'' None] 30) (Inr [])) ''probe1''
           (Targets (cfg [db1 ''XMTR'' None] 30)) [] [] = Ret ([db1 ''XMTR'' None], [])
       \<and> HasDuplicateTargets [db1 ''XMTR'' None] = Panic AssignmentToNilMap
       \<and> ReloadConfig (world_of (cfg [db1 ''XMTR'' None] 30) (Inr [])) live ''network_exporter.yml''
           = (Panic AssignmentToNilMap, live, [])"
    by (rule ReloadConfig_nil_map_panic[where hostname = "''probe1''" and f = "''''"
          and ?c0.0 = "cfg [db1 ''XMTR'' None] 30" and ts = "[]", OF _ _ _ _ _ _ _ _ s])
       (simp_all add: world_of_def cfg_def db1_def)
  then show ?thesis by (simp add: db1_def)
qed

subsection \<open>Probe assignment\<close>

lemma probe_filter_set:
  "r \<in> set (probe_filter hostname t []) \<longleftrightarrow>
   r = t \<and> (Probe t = None \<or> (\<exists>ps. Probe t = Some ps \<and> hostname \<in> set ps))"
proof (cases "Probe t")
  case None
  then show ?thesis by (auto simp: probe_filter_None)
next
  case (Some ps)
  have "0 < count_list ps hostname \<longleftrightarrow> hostname \<in> set ps"
    by (metis count_list_0_iff gr0I less_numeral_extra(3))
  then show ?thesis using Some by (auto simp: probe_filter_Some)
qed

lemma srv_loop_set:
  "r \<in> set (srv_loop hostname t hosts []) \<longleftrightarrow>
   (\<exists>s\<in>set hosts. r = t\<lparr>Name := s, Host := s\<rparr>)
   \<and> (Probe t = None \<or> (\<exists>ps. Probe t = Some ps \<and> hostname \<in> set ps))"
  by (auto simp: srv_loop_concat probe_filter_set)

lemma target_body_assigned:
  assumes "target_body w hostname t [] [] = Ret (K, lk)" and "r \<in> set K"
  shows "Probe r = None \<or> (\<exists>ps. Probe r = Some ps \<and> hostname \<in> set ps)"
proof (cases "SrvRecordCheck w (Host t)")
  case False
  then have "K = [] \<or> K = probe_filter hostname t []"
    using assms(1) by (auto simp: target_body_def split: if_splits)
  then show ?thesis using assms(2) by (auto simp: probe_filter_set)
next
  case True
  have "K = [] \<or> (\<exists>hosts. K = srv_loop hostname t hosts [])"
    using assms(1) True
    by (auto simp: target_body_def srv_expand_def split: if_splits go.splits sum.splits)
  then show ?thesis using assms(2) by (auto simp: srv_loop_set)
qed

lemma targets_loop_assigned:
  assumes "targets_loop w hostname ts [] [] = Ret (rs, lg)" and "r \<in> set rs"
  shows "Probe r = None \<or> (\<exists>ps. Probe r = Some ps \<and> hostname \<in> set ps)"
  using assms
proof (induction ts arbitrary: rs lg)
  case Nil
  then show ?case by simp
next
  case (Cons t ts)
  from targets_loop_split[of w hostname "[]" t ts rs lg] Cons.prems(1)
  obtain K lk B lb where
    k: "target_body w hostname t [] [] = Ret (K, lk)"
    and b: "targets_loop w hostname ts [] [] = Ret (B, lb)"
    and r: "rs = K @ B"
    by auto
  from Cons.prems(2) r consider "r \<in> set K" | "r \<in> set B" by auto
  then show ?case
  proof cases
    case 1
    then show ?thesis using target_body_assigned[OF k] by blast
  next
    case 2
    then show ?thesis using Cons.IH[OF b] by blast
  qed
qed

lemma targets_loop_member:
  assumes "targets_loop w hostname ts [] [] = Ret (rs, lg)" and "t \<in> set ts"
    and "target_body w hostname t [] [] = Ret (K, lk)"
  shows "set K \<subseteq> set rs"
proof -
  from assms(2) obtain xs ys where ts: "ts = xs @ t # ys" by (auto simp: in_set_conv_decomp)
  from targets_loop_split[of w hostname xs t ys rs lg] assms(1) ts
  obtain A K' lk' B where "target_body w hostname t [] [] = Ret (K', lk')" "rs = A @ K' @ B"
    by auto
  then show ?thesis using assms(3) by auto
qed

text \<open>
  C4, as the code has it. Let the loop over the specs return the list \<open>rs\<close>, and let \<open>t\<close>
  be one of the specs, with a type that passes the type check. If \<open>t\<close> has a literal
  host: without a probe list (nil) \<open>t\<close> is in \<open>rs\<close>; with a probe list, empty or not, \<open>t\<close>
  is in \<open>rs\<close> if and only if the hostname is in the list. If the host of \<open>t\<close> is an SRV
  name that passes the protocol check and resolves to \<open>hosts\<close>, the same holds of the
  copy of \<open>t\<close> made for each of the hosts.
\<close>

theorem probe_assignment_filter:
  assumes "targets_loop w hostname ts [] [] = Ret (rs, lg)" and "t \<in> set ts"
    and "MatchString re (Type t)"
  shows
    "(\<not> SrvRecordCheck w (Host t) \<longrightarrow>
        (Probe t = None \<longrightarrow> t \<in> set rs)
      \<and> (\<forall>ps. Probe t = Some ps \<longrightarrow> (t \<in> set rs \<longleftrightarrow> hostname \<in> set ps)))
   \<and> (SrvRecordCheck w (Host t)
      \<and> (Type t = ''TCP'' \<longrightarrow> (\<exists>proto. srv_proto (Host t) = Ret proto \<and> EqualFold (Type t) proto))
      \<and> SrvRecordHosts w (Host t) = Inr hosts \<and> s \<in> set hosts \<longrightarrow>
        (Probe t = None \<longrightarrow> t\<lparr>Name := s, Host := s\<rparr> \<in> set rs)
      \<and> (\<forall>ps. Probe t = Some ps \<longrightarrow>
            (t\<lparr>Name := s, Host := s\<rparr> \<in> set rs \<longleftrightarrow> hostname \<in> set ps)))"
proof -
  have literal:
    "(Probe t = None \<longrightarrow> t \<in> set rs)
      \<and> (\<forall>ps. Probe t = Some ps \<longrightarrow> (t \<in> set rs \<longleftrightarrow> hostname \<in> set ps))"
    if lit: "\<not> SrvRecordCheck w (Host t)"
  proof (rule conjI)
  have b: "target_body w hostname t [] [] = Ret (probe_filter hostname t [], [])"
    by (rule target_body_literal[OF lit assms(3)])
  have sub: "set (probe_filter hostname t []) \<subseteq> set rs"
    by (rule targets_loop_member[OF assms(1,2) b])
  show "Probe t = None \<longrightarrow> t \<in> set rs"
    using sub by (auto simp: probe_filter_None)
  show "\<forall>ps. Probe t = Some ps \<longrightarrow> (t \<in> set rs \<longleftrightarrow> hostname \<in> set ps)"
  proof (intro allI impI)
    fix ps assume p: "Probe t = Some ps"
    show "t \<in> set rs \<longleftrightarrow> hostname \<in> set ps"
    proof
      assume "t \<in> set rs"
      from targets_loop_assigned[OF assms(1) this] p show "hostname \<in> set ps" by simp
    next
      assume "hostname \<in> set ps"
      then have "t \<in> set (probe_filter hostname t [])" using p by (simp add: probe_filter_set)
      then show "t \<in> set rs" using sub by blast
    qed
  qed
  qed
  let ?r = "t\<lparr>Name := s, Host := s\<rparr>"
  have srv:
    "(Probe t = None \<longrightarrow> ?r \<in> set rs)
      \<and> (\<forall>ps. Probe t = Some ps \<longrightarrow> (?r \<in> set rs \<longleftrightarrow> hostname \<in> set ps))"
    if a: "SrvRecordCheck w (Host t)
      \<and> (Type t = ''TCP'' \<longrightarrow> (\<exists>proto. srv_proto (Host t) = Ret proto \<and> EqualFold (Type t) proto))
      \<and> SrvRecordHosts w (Host t) = Inr hosts \<and> s \<in> set hosts"
  proof (rule conjI)
  have b: "target_body w hostname t [] [] = Ret (srv_loop hostname t hosts [], [])"
    using target_body_srv[of w t hosts hostname "[]" "[]"] a assms(3) by blast
  have sub: "set (srv_loop hostname t hosts []) \<subseteq> set rs"
    by (rule targets_loop_member[OF assms(1,2) b])
  have pr: "Probe ?r = Probe t" by simp
  show "Probe t = None \<longrightarrow> ?r \<in> set rs"
  proof
    assume "Probe t = None"
    then have "?r \<in> set (srv_loop hostname t hosts [])" using a by (auto simp: srv_loop_set)
    then show "?r \<in> set rs" using sub by blast
  qed
  show "\<forall>ps. Probe t = Some ps \<longrightarrow> (?r \<in> set rs \<longleftrightarrow> hostname \<in> set ps)"
  proof (intro allI impI)
    fix ps assume p: "Probe t = Some ps"
    show "?r \<in> set rs \<longleftrightarrow> hostname \<in> set ps"
    proof
      assume "?r \<in> set rs"
      from targets_loop_assigned[OF assms(1) this] p pr show "hostname \<in> set ps" by simp
    next
      assume "hostname \<in> set ps"
      then have "?r \<in> set (srv_loop hostname t hosts [])" using p a by (auto simp: srv_loop_set)
      then show "?r \<in> set rs" using sub by blast
    qed
  qed
  qed
  from literal srv show ?thesis by blast
qed

theorem probe_assignment_filter_witness:
  "targets_loop (world_of (cfg [] 30) (Inr [''10.0.0.2''])) ''probe1''
     [db1 ''ICMP'' (Some [''probe1'']), db1 ''TCP'' (Some [''probe2'']), db1 ''MTR'' None,
      web ''ICMP'' (Some [''probe1''])] [] []
     = Ret ([db1 ''ICMP'' (Some [''probe1'']), db1 ''MTR'' None,
             (web ''ICMP'' (Some [''probe1'']))\<lparr>Name := ''10.0.0.2'', Host := ''10.0.0.2''\<rparr>], [])
   \<and> db1 ''ICMP'' (Some [''probe1'']) \<in> set [db1 ''ICMP'' (Some [''probe1'']), db1 ''MTR'' None,
             (web ''ICMP'' (Some [''probe1'']))\<lparr>Name := ''10.0.0.2'', Host := ''10.0.0.2''\<rparr>]
   \<and> db1 ''TCP'' (Some [''probe2'']) \<notin> set [db1 ''ICMP'' (Some [''probe1'']), db1 ''MTR'' None,
             (web ''ICMP'' (Some [''probe1'']))\<lparr>Name := ''10.0.0.2'', Host := ''10.0.0.2''\<rparr>]
   \<and> db1 ''MTR'' None \<in> set [db1 ''ICMP'' (Some [''probe1'']), db1 ''MTR'' None,
             (web ''ICMP'' (Some [''probe1'']))\<lparr>Name := ''10.0.0.2'', Host := ''10.0.0.2''\<rparr>]
   \<and> (web ''ICMP'' (Some [''probe1'']))\<lparr>Name := ''10.0.0.2'', Host := ''10.0.0.2''\<rparr>
       \<in> set [db1 ''ICMP'' (Some [''probe1'']), db1 ''MTR'' None,
             (web ''ICMP'' (Some [''probe1'']))\<lparr>Name := ''10.0.0.2'', Host := ''10.0.0.2''\<rparr>]"
proof -
  let ?w = "world_of (cfg [] 30) (Inr [''10.0.0.2''])"
  let ?ts = "[db1 ''ICMP'' (Some [''probe1'']), db1 ''TCP'' (Some [''probe2'']), db1 ''MTR'' None,
      web ''ICMP'' (Some [''probe1''])]"
  let ?rs = "[db1 ''ICMP'' (Some [''probe1'']), db1 ''MTR'' None,
             (web ''ICMP'' (Some [''probe1'']))\<lparr>Name := ''10.0.0.2'', Host := ''10.0.0.2''\<rparr>]"
  have m: "MatchString re ''ICMP''" "MatchString re ''TCP''" "MatchString re ''MTR''"
    by (simp_all add: known_types_match known_types_def)
  have f: "Type (db1 ty pr) = ty" "Host (db1 ty pr) = ''10.0.0.1''" "Probe (db1 ty pr) = pr"
    "Type (web ty pr) = ty" "Host (web ty pr) = ''_http._tcp.example.com''" "Probe (web ty pr) = pr"
    for ty pr by (simp_all add: db1_def web_def)
  have w: "SrvRecordCheck ?w h \<longleftrightarrow> h = ''_http._tcp.example.com''"
    "SrvRecordHosts ?w h = Inr [''10.0.0.2'']" for h
    by (simp_all add: world_of_def)
  have l: "targets_loop ?w ''probe1'' ?ts [] [] = Ret (?rs, [])"
    by (simp add: target_body_def srv_expand_def probe_filter_def m f w)
  note T = probe_assignment_filter[OF l, of _ "[''10.0.0.2'']" "''10.0.0.2''"]
  have 1: "db1 ''ICMP'' (Some [''probe1'']) \<in> set ?rs"
    using T[of "db1 ''ICMP'' (Some [''probe1''])", THEN conjunct1] by (simp add: m f w)
  have 2: "db1 ''TCP'' (Some [''probe2'']) \<notin> set ?rs"
    using T[of "db1 ''TCP'' (Some [''probe2''])", THEN conjunct1] by (simp add: m f w)
  have 3: "db1 ''MTR'' None \<in> set ?rs"
    using T[of "db1 ''MTR'' None", THEN conjunct1] by (simp add: m f w)
  have 4: "(web ''ICMP'' (Some [''probe1'']))\<lparr>Name := ''10.0.0.2'', Host := ''10.0.0.2''\<rparr> \<in> set ?rs"
    using T[of "web ''ICMP'' (Some [''probe1''])", THEN conjunct2] by (simp add: m f w)
  from l 1 2 3 4 show ?thesis by blast
qed

text \<open>
  C4 as stated fails at a probe list that is present and empty (\<^verbatim>\<open>probe: []\<close>): the
  type passes the check, the list is empty, and the reload succeeds with no target.
\<close>

theorem probe_empty_list_counterexample:
  "Probe (db1 ''ICMP'' (Some [])) = Some []
   \<and> MatchString re (Type (db1 ''ICMP'' (Some [])))
   \<and> ReloadConfig (world_of (cfg [db1 ''ICMP'' (Some [])] 30) (Inr [])) live
        ''network_exporter.yml''
       = (Ret None, live\<lparr>Cfg := Some (cfg [] 30)\<rparr>, [])"
proof -
  have m: "MatchString re ''ICMP''" by (simp add: known_types_match known_types_def)
  have d: "HasDuplicateTargets [] = Ret (False, None)" by (simp add: HasDuplicateTargets_def)
  show ?thesis
    using m d
    by (simp add: ReloadConfig_def world_of_def cfg_def target_body_def probe_filter_def
        db1_def install_def precheck_def)
qed

subsection \<open>Expansion of SRV records\<close>

lemma srv_loop_unfiltered:
  "Probe t = None \<Longrightarrow>
   srv_loop hostname t hosts [] = map (\<lambda>s. t\<lparr>Name := s, Host := s\<rparr>) hosts"
  by (induction hosts) (simp_all add: srv_loop_concat probe_filter_None)

text \<open>
  C5. Let \<open>t\<close> be a spec whose type passes the type check and that has no probe list, in
  a list of specs on which the loop returns \<open>rs\<close>. Then \<open>rs\<close> is what the loop keeps for
  the specs before \<open>t\<close>, followed by what it keeps for \<open>t\<close>, followed by what it keeps
  for the specs after \<open>t\<close>; and what it keeps for \<open>t\<close> is \<open>t\<close> itself when the host is
  literal, and one copy of \<open>t\<close> per discovered host, in order, with name and host set to
  the discovered host and every other field as in \<open>t\<close>, when the host is an SRV name
  that passes the protocol check and whose lookup returns \<open>hosts\<close>.
\<close>

theorem resolve_unfiltered_spec:
  assumes "targets_loop w hostname (xs @ t # ys) [] [] = Ret (rs, lg)"
    and "MatchString re (Type t)" and "Probe t = None"
  shows
    "\<exists>A la B lb K.
       targets_loop w hostname xs [] [] = Ret (A, la)
     \<and> targets_loop w hostname ys [] [] = Ret (B, lb)
     \<and> rs = A @ K @ B
     \<and> (\<not> SrvRecordCheck w (Host t) \<longrightarrow> K = [t])
     \<and> (SrvRecordCheck w (Host t)
        \<and> (Type t = ''TCP'' \<longrightarrow> (\<exists>proto. srv_proto (Host t) = Ret proto \<and> EqualFold (Type t) proto))
        \<and> SrvRecordHosts w (Host t) = Inr hosts
        \<longrightarrow> K = map (\<lambda>s. t\<lparr>Name := s, Host := s\<rparr>) hosts
          \<and> length K = length hosts
          \<and> (\<forall>i<length hosts.
                Name (K ! i) = hosts ! i \<and> Host (K ! i) = hosts ! i
              \<and> Type (K ! i) = Type t \<and> Labels (K ! i) = Labels t \<and> Probe (K ! i) = Probe t
              \<and> Proxy (K ! i) = Proxy t \<and> SourceIp (K ! i) = SourceIp t))"
proof -
  from targets_loop_split[OF assms(1)] obtain A la K lk B lb where
    s: "targets_loop w hostname xs [] [] = Ret (A, la)"
       "target_body w hostname t [] [] = Ret (K, lk)"
       "targets_loop w hostname ys [] [] = Ret (B, lb)"
       "rs = A @ K @ B"
    by blast
  have literal: "K = [t]" if "\<not> SrvRecordCheck w (Host t)"
    using target_body_literal[OF that assms(2), of hostname "[]" "[]"] s(2) assms(3)
    by (simp add: probe_filter_None)
  have srv: "K = map (\<lambda>s. t\<lparr>Name := s, Host := s\<rparr>) hosts"
    if "SrvRecordCheck w (Host t)"
      "Type t = ''TCP'' \<longrightarrow> (\<exists>proto. srv_proto (Host t) = Ret proto \<and> EqualFold (Type t) proto)"
      "SrvRecordHosts w (Host t) = Inr hosts"
    using target_body_srv[OF that(1) assms(2) that(2,3), of hostname "[]" "[]"] s(2) assms(3)
    by (simp add: srv_loop_unfiltered)
  have fields: "length K = length hosts
          \<and> (\<forall>i<length hosts.
                Name (K ! i) = hosts ! i \<and> Host (K ! i) = hosts ! i
              \<and> Type (K ! i) = Type t \<and> Labels (K ! i) = Labels t \<and> Probe (K ! i) = Probe t
              \<and> Proxy (K ! i) = Proxy t \<and> SourceIp (K ! i) = SourceIp t)"
    if "K = map (\<lambda>s. t\<lparr>Name := s, Host := s\<rparr>) hosts"
    using that by simp
  have c1: "\<not> SrvRecordCheck w (Host t) \<longrightarrow> K = [t]"
    using literal by blast
  have c2: "SrvRecordCheck w (Host t)
        \<and> (Type t = ''TCP'' \<longrightarrow> (\<exists>proto. srv_proto (Host t) = Ret proto \<and> EqualFold (Type t) proto))
        \<and> SrvRecordHosts w (Host t) = Inr hosts
        \<longrightarrow> K = map (\<lambda>s. t\<lparr>Name := s, Host := s\<rparr>) hosts
          \<and> length K = length hosts
          \<and> (\<forall>i<length hosts.
                Name (K ! i) = hosts ! i \<and> Host (K ! i) = hosts ! i
              \<and> Type (K ! i) = Type t \<and> Labels (K ! i) = Labels t \<and> Probe (K ! i) = Probe t
              \<and> Proxy (K ! i) = Proxy t \<and> SourceIp (K ! i) = SourceIp t)"
  proof
    assume a: "SrvRecordCheck w (Host t)
        \<and> (Type t = ''TCP'' \<longrightarrow> (\<exists>proto. srv_proto (Host t) = Ret proto \<and> EqualFold (Type t) proto))
        \<and> SrvRecordHosts w (Host t) = Inr hosts"
    then have k: "K = map (\<lambda>s. t\<lparr>Name := s, Host := s\<rparr>) hosts" using srv by blast
    from k fields[OF k] show "K = map (\<lambda>s. t\<lparr>Name := s, Host := s\<rparr>) hosts
          \<and> length K = length hosts
          \<and> (\<forall>i<length hosts.
                Name (K ! i) = hosts ! i \<and> Host (K ! i) = hosts ! i
              \<and> Type (K ! i) = Type t \<and> Labels (K ! i) = Labels t \<and> Probe (K ! i) = Probe t
              \<and> Proxy (K ! i) = Proxy t \<and> SourceIp (K ! i) = SourceIp t)"
      by (rule conjI)
  qed
  show ?thesis
    by (intro exI conjI) (fact s(1) s(3) s(4) c1 c2)+
qed

theorem resolve_unfiltered_spec_witness:
  "targets_loop (world_of (cfg [] 30) (Inr [''10.0.0.2'', ''10.0.0.3''])) ''probe1''
     [db1 ''ICMP'' None, web ''TCP'' None, db1 ''MTR'' None] [] []
   = Ret ([db1 ''ICMP'' None,
           (web ''TCP'' None)\<lparr>Name := ''10.0.0.2'', Host := ''10.0.0.2''\<rparr>,
           (web ''TCP'' None)\<lparr>Name := ''10.0.0.3'', Host := ''10.0.0.3''\<rparr>,
           db1 ''MTR'' None], [])
   \<and> (\<exists>A B. [db1 ''ICMP'' None,
           (web ''TCP'' None)\<lparr>Name := ''10.0.0.2'', Host := ''10.0.0.2''\<rparr>,
           (web ''TCP'' None)\<lparr>Name := ''10.0.0.3'', Host := ''10.0.0.3''\<rparr>,
           db1 ''MTR'' None]
        = A @ [(web ''TCP'' None)\<lparr>Name := ''10.0.0.2'', Host := ''10.0.0.2''\<rparr>,
               (web ''TCP'' None)\<lparr>Name := ''10.0.0.3'', Host := ''10.0.0.3''\<rparr>] @ B)
   \<and> (\<exists>A B. [db1 ''ICMP'' None,
           (web ''TCP'' None)\<lparr>Name := ''10.0.0.2'', Host := ''10.0.0.2''\<rparr>,
           (web ''TCP'' None)\<lparr>Name := ''10.0.0.3'', Host := ''10.0.0.3''\<rparr>,
           db1 ''MTR'' None] = A @ [db1 ''MTR'' None] @ B)"
proof -
  let ?w = "world_of (cfg [] 30) (Inr [''10.0.0.2'', ''10.0.0.3''])"
  let ?web = "web ''TCP'' None"
  let ?rs = "[db1 ''ICMP'' None, ?web\<lparr>Name := ''10.0.0.2'', Host := ''10.0.0.2''\<rparr>,
           ?web\<lparr>Name := ''10.0.0.3'', Host := ''10.0.0.3''\<rparr>, db1 ''MTR'' None]"
  have m: "MatchString re ''ICMP''" "MatchString re ''TCP''" "MatchString re ''MTR''"
    by (simp_all add: known_types_match known_types_def)
  have f: "Type (db1 ty pr) = ty" "Host (db1 ty pr) = ''10.0.0.1''" "Probe (db1 ty pr) = pr"
    "Type (web ty pr) = ty" "Host (web ty pr) = ''_http._tcp.example.com''" "Probe (web ty pr) = pr"
    for ty pr by (simp_all add: db1_def web_def)
  have w: "SrvRecordCheck ?w h \<longleftrightarrow> h = ''_http._tcp.example.com''"
    "SrvRecordHosts ?w h = Inr [''10.0.0.2'', ''10.0.0.3'']" for h
    by (simp_all add: world_of_def)
  have p: "srv_proto ''_http._tcp.example.com'' = Ret ''tcp''" by code_simp
  have e: "EqualFold ''TCP'' ''tcp''" by code_simp
  have l: "targets_loop ?w ''probe1'' [db1 ''ICMP'' None, ?web, db1 ''MTR'' None] [] []
           = Ret (?rs, [])"
    by (simp add: target_body_def srv_expand_def probe_filter_def m f w p e)
  have l2: "targets_loop ?w ''probe1'' ([db1 ''ICMP'' None] @ ?web # [db1 ''MTR'' None]) [] []
           = Ret (?rs, [])"
    using l by simp
  have l3: "targets_loop ?w ''probe1'' ([db1 ''ICMP'' None, ?web] @ db1 ''MTR'' None # []) [] []
           = Ret (?rs, [])"
    using l by simp
  have mw: "MatchString re (Type ?web)" "Probe ?web = None"
    and md: "MatchString re (Type (db1 ''MTR'' None))" "Probe (db1 ''MTR'' None) = None"
    by (simp_all add: m f)
  from resolve_unfiltered_spec[OF l2 mw, of "[''10.0.0.2'', ''10.0.0.3'']"]
  obtain A B K where k: "?rs = A @ K @ B"
    "SrvRecordCheck ?w (Host ?web)
        \<and> (Type ?web = ''TCP'' \<longrightarrow> (\<exists>proto. srv_proto (Host ?web) = Ret proto \<and> EqualFold (Type ?web) proto))
        \<and> SrvRecordHosts ?w (Host ?web) = Inr [''10.0.0.2'', ''10.0.0.3'']
        \<longrightarrow> K = map (\<lambda>s. ?web\<lparr>Name := s, Host := s\<rparr>) [''10.0.0.2'', ''10.0.0.3'']"
    by blast
  have "K = map (\<lambda>s. ?web\<lparr>Name := s, Host := s\<rparr>) [''10.0.0.2'', ''10.0.0.3'']"
    using k(2) by (simp add: f w p e)
  then have K: "K = [?web\<lparr>Name := ''10.0.0.2'', Host := ''10.0.0.2''\<rparr>,
                      ?web\<lparr>Name := ''10.0.0.3'', Host := ''10.0.0.3''\<rparr>]"
    by simp
  have 1: "\<exists>A B. ?rs = A @ [?web\<lparr>Name := ''10.0.0.2'', Host := ''10.0.0.2''\<rparr>,
               ?web\<lparr>Name := ''10.0.0.3'', Host := ''10.0.0.3''\<rparr>] @ B"
    using k(1) unfolding K by blast
  from resolve_unfiltered_spec[OF l3 md, of "[]"]
  obtain A' B' K' where k': "?rs = A' @ K' @ B'"
    "\<not> SrvRecordCheck ?w (Host (db1 ''MTR'' None)) \<longrightarrow> K' = [db1 ''MTR'' None]"
    by blast
  have "K' = [db1 ''MTR'' None]" using k'(2) by (simp add: f w)
  then have 2: "\<exists>A B. ?rs = A @ [db1 ''MTR'' None] @ B"
    using k'(1) by blast
  from l 1 2 show ?thesis by blast
qed

subsection \<open>A hostname listed more than once\<close>

lemma replicate_duplicate:
  assumes "rs = A @ replicate k t @ B" and "1 < k"
    and "\<forall>r\<in>set rs. Type r \<in> known_types"
  shows "\<exists>r\<in>set rs. HasDuplicateTargets rs = Ret (True, Some (FoundDuplicatedRecord (Name r)))"
proof -
  let ?i = "length A"
  have j: "Suc ?i < length rs" using assms(1,2) by simp
  have i: "rs ! ?i = t" using assms(1,2) by (simp add: nth_append)
  have "rs ! Suc ?i = (replicate k t @ B) ! 1" using assms(1) by (simp add: nth_append)
  also have "\<dots> = t" using assms(2) by (simp add: nth_append)
  finally have "conflict (rs ! ?i) (rs ! Suc ?i)" using i by (simp add: conflict_def)
  from HasDuplicateTargets_dup[OF assms(3) _ j this] show ?thesis by simp
qed

lemma install_duplicate:
  assumes "HasDuplicateTargets (Targets c) = Ret (b, Some err)"
  shows "install sc c = (Ret (Some (ParsingConfigFile err)), sc)"
  using assms by (simp add: install_def)

lemma srv_loop_Some:
  "Probe t = Some ps \<Longrightarrow>
   srv_loop hostname t hosts [] =
   concat (map (\<lambda>s. replicate (count_list ps hostname) (t\<lparr>Name := s, Host := s\<rparr>)) hosts)"
  by (simp add: srv_loop_concat probe_filter_Some)

text \<open>
  C10, as the code has it. Let \<open>t\<close> be a spec of the decoded configuration whose type
  passes the type check and whose probe list contains the hostname \<open>k\<close> times, \<open>k > 1\<close>,
  and let the loop return \<open>rs\<close>. If the host of \<open>t\<close> is literal, \<open>rs\<close> contains \<open>k\<close>
  copies of \<open>t\<close> in a row. If it is an SRV name that passes the protocol check and
  resolves to \<open>hosts\<close>, \<open>rs\<close> contains, in a row, \<open>k\<close> copies of the copy of \<open>t\<close> made for
  each host. In both cases (with at least one host), when every type in \<open>rs\<close> is one of
  the five documented ones, \<^verbatim>\<open>ReloadConfig\<close> returns the duplicate error, wrapped as a
  parsing error, and leaves the receiver as it was.
\<close>

theorem repeated_hostname_duplicates:
  assumes "os_Hostname w = Inr hostname" and "os_Open w confFile = Inr f"
    and "yaml_Decode w f = Inr c0" and "defaults_Set w c0 = Inr c"
    and "Targets c = xs @ t # ys"
    and "targets_loop w hostname (Targets c) [] [] = Ret (rs, lg)"
    and "MatchString re (Type t)"
    and "Probe t = Some ps" and "count_list ps hostname = k" and "1 < k"
  shows
    "(\<not> SrvRecordCheck w (Host t) \<longrightarrow>
        (\<exists>A B. rs = A @ replicate k t @ B)
      \<and> ((\<forall>r\<in>set rs. Type r \<in> {''ICMP'', ''MTR'', ''ICMP+MTR'', ''TCP'', ''HTTPGet''}) \<longrightarrow>
           (\<exists>r\<in>set rs. ReloadConfig w sc confFile =
              (Ret (Some (ParsingConfigFile (FoundDuplicatedRecord (Name r)))), sc, lg))))
   \<and> (SrvRecordCheck w (Host t)
      \<and> (Type t = ''TCP'' \<longrightarrow> (\<exists>proto. srv_proto (Host t) = Ret proto \<and> EqualFold (Type t) proto))
      \<and> SrvRecordHosts w (Host t) = Inr hosts \<longrightarrow>
        (\<exists>A B. rs = A @ concat (map (\<lambda>s. replicate k (t\<lparr>Name := s, Host := s\<rparr>)) hosts) @ B)
      \<and> (hosts \<noteq> []
          \<and> (\<forall>r\<in>set rs. Type r \<in> {''ICMP'', ''MTR'', ''ICMP+MTR'', ''TCP'', ''HTTPGet''}) \<longrightarrow>
           (\<exists>r\<in>set rs. ReloadConfig w sc confFile =
              (Ret (Some (ParsingConfigFile (FoundDuplicatedRecord (Name r)))), sc, lg))))"
proof -
  let ?known = "\<forall>r\<in>set rs. Type r \<in> {''ICMP'', ''MTR'', ''ICMP+MTR'', ''TCP'', ''HTTPGet''}"
  let ?fails = "\<exists>r\<in>set rs. ReloadConfig w sc confFile =
              (Ret (Some (ParsingConfigFile (FoundDuplicatedRecord (Name r)))), sc, lg)"
  from targets_loop_split[of w hostname xs t ys rs lg] assms(5,6) obtain A K lk B where
    s: "target_body w hostname t [] [] = Ret (K, lk)" "rs = A @ K @ B"
    by auto
  have fails: ?fails if "rs = A' @ replicate k u @ B'" and ?known for A' u B'
  proof -
    have "\<forall>r\<in>set rs. Type r \<in> known_types" using that(2) by (simp add: known_types_def)
    from replicate_duplicate[OF that(1) assms(10) this] obtain r where
      r: "r \<in> set rs" "HasDuplicateTargets rs = Ret (True, Some (FoundDuplicatedRecord (Name r)))"
      by blast
    have "install sc (c\<lparr>Targets := rs\<rparr>)
            = (Ret (Some (ParsingConfigFile (FoundDuplicatedRecord (Name r)))), sc)"
      using install_duplicate[of "c\<lparr>Targets := rs\<rparr>" True "FoundDuplicatedRecord (Name r)" sc] r(2)
      by simp
    then have "ReloadConfig w sc confFile =
              (Ret (Some (ParsingConfigFile (FoundDuplicatedRecord (Name r)))), sc, lg)"
      using ReloadConfig_loaded[OF assms(1-4,6), of sc] by simp
    then show ?thesis using r(1) by blast
  qed
  have literal: "(\<exists>A B. rs = A @ replicate k t @ B) \<and> (?known \<longrightarrow> ?fails)"
    if lit: "\<not> SrvRecordCheck w (Host t)"
  proof -
    have "K = replicate k t"
      using target_body_literal[OF lit assms(7), of hostname "[]" "[]"] s(1) assms(8,9)
      by (simp add: probe_filter_Some)
    then have e: "rs = A @ replicate k t @ B" using s(2) by simp
    then show ?thesis using fails[OF e] by blast
  qed
  have srv: "(\<exists>A B. rs = A @ concat (map (\<lambda>s. replicate k (t\<lparr>Name := s, Host := s\<rparr>)) hosts) @ B)
      \<and> (hosts \<noteq> [] \<and> ?known \<longrightarrow> ?fails)"
    if a: "SrvRecordCheck w (Host t)
      \<and> (Type t = ''TCP'' \<longrightarrow> (\<exists>proto. srv_proto (Host t) = Ret proto \<and> EqualFold (Type t) proto))
      \<and> SrvRecordHosts w (Host t) = Inr hosts"
  proof -
    have "target_body w hostname t [] [] = Ret (srv_loop hostname t hosts [], [])"
      using target_body_srv[of w t hosts hostname "[]" "[]"] a assms(7) by blast
    then have "K = concat (map (\<lambda>s. replicate k (t\<lparr>Name := s, Host := s\<rparr>)) hosts)"
      using s(1) assms(8,9) by (simp add: srv_loop_Some)
    then have e: "rs = A @ concat (map (\<lambda>s. replicate k (t\<lparr>Name := s, Host := s\<rparr>)) hosts) @ B"
      using s(2) by simp
    have "?fails" if h: "hosts \<noteq> []" and kn: ?known
    proof -
      from h obtain s0 hs where hosts: "hosts = s0 # hs" by (cases hosts) auto
      have "rs = A @ replicate k (t\<lparr>Name := s0, Host := s0\<rparr>)
                 @ (concat (map (\<lambda>s. replicate k (t\<lparr>Name := s, Host := s\<rparr>)) hs) @ B)"
        using e hosts by simp
      from fails[OF this kn] show ?thesis .
    qed
    then show ?thesis using e by blast
  qed
  from literal srv show ?thesis by blast
qed

theorem repeated_hostname_duplicates_witness:
  "count_list [''probe1'', ''probe1''] ''probe1'' = 2
   \<and> ReloadConfig (world_of (cfg [db1 ''ICMP'' (Some [''probe1'', ''probe1''])] 30) (Inr [])) live
        ''network_exporter.yml''
      = (Ret (Some (ParsingConfigFile (FoundDuplicatedRecord ''db1''))), live, [])
   \<and> ReloadConfig (world_of (cfg [web ''ICMP'' (Some [''probe1'', ''probe1''])] 30)
                     (Inr [''10.0.0.2''])) live ''network_exporter.yml''
      = (Ret (Some (ParsingConfigFile (FoundDuplicatedRecord ''10.0.0.2''))), live, [])"
proof -
  let ?d = "db1 ''ICMP'' (Some [''probe1'', ''probe1''])"
  let ?e = "web ''ICMP'' (Some [''probe1'', ''probe1''])"
  let ?e' = "?e\<lparr>Name := ''10.0.0.2'', Host := ''10.0.0.2''\<rparr>"
  let ?w1 = "world_of (cfg [?d] 30) (Inr [])"
  let ?w2 = "world_of (cfg [?e] 30) (Inr [''10.0.0.2''])"
  have m: "MatchString re ''ICMP''" by (simp add: known_types_match known_types_def)
  have f: "Type (db1 ty pr) = ty" "Host (db1 ty pr) = ''10.0.0.1''" "Probe (db1 ty pr) = pr"
    "Name (db1 ty pr) = ''db1''"
    "Type (web ty pr) = ty" "Host (web ty pr) = ''_http._tcp.example.com''" "Probe (web ty pr) = pr"
    for ty pr by (simp_all add: db1_def web_def)
  have c: "count_list [''probe1'', ''probe1''] ''probe1'' = 2" by simp
  have l1: "targets_loop ?w1 ''probe1'' (Targets (cfg [?d] 30)) [] [] = Ret ([?d, ?d], [])"
    by (simp add: cfg_def world_of_def target_body_def probe_filter_def m f)
  have l2: "targets_loop ?w2 ''probe1'' (Targets (cfg [?e] 30)) [] [] = Ret ([?e', ?e'], [])"
    by (simp add: cfg_def world_of_def target_body_def srv_expand_def probe_filter_def m f)
  have t1: "Targets (cfg [?d] 30) = [] @ ?d # []" and t2: "Targets (cfg [?e] 30) = [] @ ?e # []"
    by (simp_all add: cfg_def)
  have "\<exists>r\<in>set [?d, ?d]. ReloadConfig ?w1 live ''network_exporter.yml'' =
          (Ret (Some (ParsingConfigFile (FoundDuplicatedRecord (Name r)))), live, [])"
    using repeated_hostname_duplicates[where w = ?w1 and hostname = "''probe1''" and f = "''''"
        and ?c0.0 = "cfg [?d] 30" and c = "cfg [?d] 30" and sc = live,
        OF _ _ _ _ t1 l1 _ _ c, THEN conjunct1]
    by (simp add: world_of_def m f)
  then have 1: "ReloadConfig ?w1 live ''network_exporter.yml'' =
          (Ret (Some (ParsingConfigFile (FoundDuplicatedRecord ''db1''))), live, [])"
    by (simp add: f)
  have "\<exists>r\<in>set [?e', ?e']. ReloadConfig ?w2 live ''network_exporter.yml'' =
          (Ret (Some (ParsingConfigFile (FoundDuplicatedRecord (Name r)))), live, [])"
    using repeated_hostname_duplicates[where w = ?w2 and hostname = "''probe1''" and f = "''''"
        and ?c0.0 = "cfg [?e] 30" and c = "cfg [?e] 30" and sc = live
        and hosts = "[''10.0.0.2'']",
        OF _ _ _ _ t2 l2 _ _ c, THEN conjunct2]
    by (simp add: world_of_def m f)
  then have 2: "ReloadConfig ?w2 live ''network_exporter.yml'' =
          (Ret (Some (ParsingConfigFile (FoundDuplicatedRecord ''10.0.0.2''))), live, [])"
    by simp
  from c 1 2 show ?thesis by blast
qed

text \<open>
  C10 as stated fails where the spec does not reach the probe filter, or where a
  resolved type is none of the map keys. In both configurations below the probe list
  holds the hostname twice. In the first the SRV lookup fails: the spec is dropped with
  a log record and the reload succeeds with no target. In the second the type XMTR
  passes the type check and the duplicate check panics.
\<close>

theorem repeated_hostname_counterexample:
  "count_list [''probe1'', ''probe1''] ''probe1'' = 2
   \<and> ReloadConfig (world_of (cfg [web ''ICMP'' (Some [''probe1'', ''probe1''])] 30)
                     (Inl (LibError ''no such host''))) live ''network_exporter.yml''
      = (Ret None, live\<lparr>Cfg := Some (cfg [] 30)\<rparr>,
         [SrvRecordError ''_http._tcp.example.com'' (LibError ''no such host'')])
   \<and> ReloadConfig (world_of (cfg [db1 ''XMTR'' (Some [''probe1'', ''probe1''])] 30) (Inr [])) live
        ''network_exporter.yml''
      = (Panic AssignmentToNilMap, live, [])"
proof -
  have m: "MatchString re ''ICMP''" "MatchString re ''XMTR''"
    by (simp_all add: MatchString_re sublist_def exI[of _ "''X''"])
  have d: "HasDuplicateTargets [] = Ret (False, None)" by (simp add: HasDuplicateTargets_def)
  have u: "HasDuplicateTargets [db1 ''XMTR'' pr, db1 ''XMTR'' pr] = Panic AssignmentToNilMap" for pr
    by (rule HasDuplicateTargets_unknown) (simp add: db1_def)
  have 1: "ReloadConfig (world_of (cfg [web ''ICMP'' (Some [''probe1'', ''probe1''])] 30)
                     (Inl (LibError ''no such host''))) live ''network_exporter.yml''
      = (Ret None, live\<lparr>Cfg := Some (cfg [] 30)\<rparr>,
         [SrvRecordError ''_http._tcp.example.com'' (LibError ''no such host'')])"
    using m d
    by (simp add: ReloadConfig_def world_of_def cfg_def target_body_def srv_expand_def
        web_def install_def precheck_def)
  have l: "targets_loop (world_of (cfg [db1 ''XMTR'' (Some [''probe1'', ''probe1''])] 30) (Inr []))
        ''probe1'' [db1 ''XMTR'' (Some [''probe1'', ''probe1''])] [] []
      = Ret ([db1 ''XMTR'' (Some [''probe1'', ''probe1'']),
              db1 ''XMTR'' (Some [''probe1'', ''probe1''])], [])"
    using m by (simp add: world_of_def target_body_def probe_filter_def db1_def)
  have 2: "ReloadConfig (world_of (cfg [db1 ''XMTR'' (Some [''probe1'', ''probe1''])] 30) (Inr [])) live
        ''network_exporter.yml''
      = (Panic AssignmentToNilMap, live, [])"
    using l u
    by (simp add: ReloadConfig_def install_def world_of_def[THEN arg_cong, of os_Hostname]
        world_of_def[THEN arg_cong, of os_Open] world_of_def[THEN arg_cong, of yaml_Decode]
        world_of_def[THEN arg_cong, of defaults_Set] cfg_def)
  from 1 2 show ?thesis by simp
qed

section \<open>The sampling cycle\<close>

lemma sint_add_no_overflow:
  fixes a b :: "'w::len word"
  assumes "0 \<le> sint a" and "sint b + sint a < 2 ^ (LENGTH('w) - 1)"
  shows "sint (a + b) = sint a + sint b"
proof -
  have "- (2 ^ (LENGTH('w) - 1)) \<le> sint b" by (rule sint_ge)
  then have "- (2 ^ (LENGTH('w) - 1)) \<le> sint a + sint b" using assms(1) by linarith
  moreover have "sint a + sint b < 2 ^ (LENGTH('w) - 1)" using assms(2) by linarith
  ultimately show ?thesis
    by (simp add: sint_word_ariths signed_take_bit_int_eq_self)
qed

lemma ping_Some:
  assumes "result t = Some r"
  shows "ping (Some d) t =
     Ret (t\<lparr>result := Some \<lparr>Window = Window d,
                              SntSummary = SntSummary d + SntSummary r,
                              SntFailSummary = SntFailSummary d + SntFailSummary r,
                              SntTimeSummary = SntTimeSummary d + SntTimeSummary r\<rparr>\<rparr>)"
  using assms by (simp add: ping_def)

lemma sum_list_sint_nonneg:
  "\<forall>d\<in>set ds. 0 \<le> sint (g d) \<Longrightarrow> 0 \<le> (\<Sum>d\<leftarrow>ds. sint (g d))"
  by (induction ds) simp_all

lemma cycles_sums:
  fixes t :: "'a PING"
  assumes "result t = Some r"
    and "\<forall>d\<in>set ds. 0 \<le> sint (SntSummary d) \<and> 0 \<le> sint (SntFailSummary d)
            \<and> 0 \<le> sint (SntTimeSummary d)"
    and "sint (SntSummary r) + (\<Sum>d\<leftarrow>ds. sint (SntSummary d)) < 2 ^ 63"
    and "sint (SntFailSummary r) + (\<Sum>d\<leftarrow>ds. sint (SntFailSummary d)) < 2 ^ 63"
    and "sint (SntTimeSummary r) + (\<Sum>d\<leftarrow>ds. sint (SntTimeSummary d)) < 2 ^ 63"
  shows "\<exists>t' r'. cycles (map Some ds) t = Ret t' \<and> result t' = Some r'
      \<and> sint (SntSummary r') = sint (SntSummary r) + (\<Sum>d\<leftarrow>ds. sint (SntSummary d))
      \<and> sint (SntFailSummary r') = sint (SntFailSummary r) + (\<Sum>d\<leftarrow>ds. sint (SntFailSummary d))
      \<and> sint (SntTimeSummary r') = sint (SntTimeSummary r) + (\<Sum>d\<leftarrow>ds. sint (SntTimeSummary d))"
  using assms
proof (induction ds arbitrary: t r)
  case Nil
  then show ?case by simp
next
  case (Cons d ds)
  let ?r1 = "\<lparr>Window = Window d,
              SntSummary = SntSummary d + SntSummary r,
              SntFailSummary = SntFailSummary d + SntFailSummary r,
              SntTimeSummary = SntTimeSummary d + SntTimeSummary r\<rparr>"
  let ?t1 = "t\<lparr>result := Some ?r1\<rparr>"
  have p: "ping (Some d) t = Ret ?t1" by (rule ping_Some[OF Cons.prems(1)])
  have nn: "0 \<le> sint (SntSummary d)" "0 \<le> sint (SntFailSummary d)" "0 \<le> sint (SntTimeSummary d)"
    and rest: "\<forall>d\<in>set ds. 0 \<le> sint (SntSummary d) \<and> 0 \<le> sint (SntFailSummary d)
            \<and> 0 \<le> sint (SntTimeSummary d)"
    using Cons.prems(2) by simp_all
  have s: "0 \<le> (\<Sum>d\<leftarrow>ds. sint (SntSummary d))" "0 \<le> (\<Sum>d\<leftarrow>ds. sint (SntFailSummary d))"
    "0 \<le> (\<Sum>d\<leftarrow>ds. sint (SntTimeSummary d))"
    using rest by (simp_all add: sum_list_sint_nonneg)
  have a: "sint (SntSummary d + SntSummary r) = sint (SntSummary d) + sint (SntSummary r)"
    using Cons.prems(3) s(1) nn(1) by (intro sint_add_no_overflow) simp_all
  have b: "sint (SntFailSummary d + SntFailSummary r)
             = sint (SntFailSummary d) + sint (SntFailSummary r)"
    using Cons.prems(4) s(2) nn(2) by (intro sint_add_no_overflow) simp_all
  have c: "sint (SntTimeSummary d + SntTimeSummary r)
             = sint (SntTimeSummary d) + sint (SntTimeSummary r)"
    using Cons.prems(5) s(3) nn(3) by (intro sint_add_no_overflow) simp_all
  have "\<exists>t' r'. cycles (map Some ds) ?t1 = Ret t' \<and> result t' = Some r'
      \<and> sint (SntSummary r') = sint (SntSummary ?r1) + (\<Sum>d\<leftarrow>ds. sint (SntSummary d))
      \<and> sint (SntFailSummary r') = sint (SntFailSummary ?r1) + (\<Sum>d\<leftarrow>ds. sint (SntFailSummary d))
      \<and> sint (SntTimeSummary r') = sint (SntTimeSummary ?r1) + (\<Sum>d\<leftarrow>ds. sint (SntTimeSummary d))"
  proof (rule Cons.IH[OF _ rest])
    show "result ?t1 = Some ?r1" by simp
    show "sint (SntSummary ?r1) + (\<Sum>d\<leftarrow>ds. sint (SntSummary d)) < 2 ^ 63"
      using Cons.prems(3) a by simp
    show "sint (SntFailSummary ?r1) + (\<Sum>d\<leftarrow>ds. sint (SntFailSummary d)) < 2 ^ 63"
      using Cons.prems(4) b by simp
    show "sint (SntTimeSummary ?r1) + (\<Sum>d\<leftarrow>ds. sint (SntTimeSummary d)) < 2 ^ 63"
      using Cons.prems(5) c by simp
  qed
  then show ?case using p a b c by auto
qed

text \<open>
  C7, as the code has it. One cycle stores the new sample with each of its three
  counters increased by the stored counter (the addition wraps at 64 bits), and nothing
  else of the stored result remains. When the samples of a run of cycles report
  non-negative counts and each counter's sum stays below \<open>2 ^ 63\<close>, the run does not
  panic and \<^verbatim>\<open>Compute\<close> shows counters that are the exact sums, so none of them is
  below its value before the run.
\<close>

theorem ping_counters:
  fixes t :: "'a PING"
  assumes "result t = Some r"
  shows
    "ping (Some d) t =
       Ret (t\<lparr>result := Some \<lparr>Window = Window d,
                                SntSummary = SntSummary d + SntSummary r,
                                SntFailSummary = SntFailSummary d + SntFailSummary r,
                                SntTimeSummary = SntTimeSummary d + SntTimeSummary r\<rparr>\<rparr>)
   \<and> ((\<forall>d\<in>set ds. 0 \<le> sint (SntSummary d) \<and> 0 \<le> sint (SntFailSummary d)
            \<and> 0 \<le> sint (SntTimeSummary d))
      \<and> sint (SntSummary r) + (\<Sum>d\<leftarrow>ds. sint (SntSummary d)) < 2 ^ 63
      \<and> sint (SntFailSummary r) + (\<Sum>d\<leftarrow>ds. sint (SntFailSummary d)) < 2 ^ 63
      \<and> sint (SntTimeSummary r) + (\<Sum>d\<leftarrow>ds. sint (SntTimeSummary d)) < 2 ^ 63
      \<longrightarrow> (\<exists>t' r'. cycles (map Some ds) t = Ret t' \<and> Compute t' = Some r'
            \<and> sint (SntSummary r') = sint (SntSummary r) + (\<Sum>d\<leftarrow>ds. sint (SntSummary d))
            \<and> sint (SntFailSummary r')
                = sint (SntFailSummary r) + (\<Sum>d\<leftarrow>ds. sint (SntFailSummary d))
            \<and> sint (SntTimeSummary r')
                = sint (SntTimeSummary r) + (\<Sum>d\<leftarrow>ds. sint (SntTimeSummary d))
            \<and> sint (SntSummary r) \<le> sint (SntSummary r')
            \<and> sint (SntFailSummary r) \<le> sint (SntFailSummary r')
            \<and> sint (SntTimeSummary r) \<le> sint (SntTimeSummary r')))"
proof (rule conjI)
  show "ping (Some d) t =
       Ret (t\<lparr>result := Some \<lparr>Window = Window d,
                                SntSummary = SntSummary d + SntSummary r,
                                SntFailSummary = SntFailSummary d + SntFailSummary r,
                                SntTimeSummary = SntTimeSummary d + SntTimeSummary r\<rparr>\<rparr>)"
    by (rule ping_Some[OF assms])
next
  show "(\<forall>d\<in>set ds. 0 \<le> sint (SntSummary d) \<and> 0 \<le> sint (SntFailSummary d)
            \<and> 0 \<le> sint (SntTimeSummary d))
      \<and> sint (SntSummary r) + (\<Sum>d\<leftarrow>ds. sint (SntSummary d)) < 2 ^ 63
      \<and> sint (SntFailSummary r) + (\<Sum>d\<leftarrow>ds. sint (SntFailSummary d)) < 2 ^ 63
      \<and> sint (SntTimeSummary r) + (\<Sum>d\<leftarrow>ds. sint (SntTimeSummary d)) < 2 ^ 63
      \<longrightarrow> (\<exists>t' r'. cycles (map Some ds) t = Ret t' \<and> Compute t' = Some r'
            \<and> sint (SntSummary r') = sint (SntSummary r) + (\<Sum>d\<leftarrow>ds. sint (SntSummary d))
            \<and> sint (SntFailSummary r')
                = sint (SntFailSummary r) + (\<Sum>d\<leftarrow>ds. sint (SntFailSummary d))
            \<and> sint (SntTimeSummary r')
                = sint (SntTimeSummary r) + (\<Sum>d\<leftarrow>ds. sint (SntTimeSummary d))
            \<and> sint (SntSummary r) \<le> sint (SntSummary r')
            \<and> sint (SntFailSummary r) \<le> sint (SntFailSummary r')
            \<and> sint (SntTimeSummary r) \<le> sint (SntTimeSummary r'))"
  proof
    assume h: "(\<forall>d\<in>set ds. 0 \<le> sint (SntSummary d) \<and> 0 \<le> sint (SntFailSummary d)
            \<and> 0 \<le> sint (SntTimeSummary d))
      \<and> sint (SntSummary r) + (\<Sum>d\<leftarrow>ds. sint (SntSummary d)) < 2 ^ 63
      \<and> sint (SntFailSummary r) + (\<Sum>d\<leftarrow>ds. sint (SntFailSummary d)) < 2 ^ 63
      \<and> sint (SntTimeSummary r) + (\<Sum>d\<leftarrow>ds. sint (SntTimeSummary d)) < 2 ^ 63"
    then have nn: "\<forall>d\<in>set ds. 0 \<le> sint (SntSummary d) \<and> 0 \<le> sint (SntFailSummary d)
            \<and> 0 \<le> sint (SntTimeSummary d)" by blast
    from cycles_sums[OF assms nn] h obtain t' r' where
      c: "cycles (map Some ds) t = Ret t'" "result t' = Some r'"
         "sint (SntSummary r') = sint (SntSummary r) + (\<Sum>d\<leftarrow>ds. sint (SntSummary d))"
         "sint (SntFailSummary r') = sint (SntFailSummary r) + (\<Sum>d\<leftarrow>ds. sint (SntFailSummary d))"
         "sint (SntTimeSummary r') = sint (SntTimeSummary r) + (\<Sum>d\<leftarrow>ds. sint (SntTimeSummary d))"
      by blast
    have s: "0 \<le> (\<Sum>d\<leftarrow>ds. sint (SntSummary d))" "0 \<le> (\<Sum>d\<leftarrow>ds. sint (SntFailSummary d))"
      "0 \<le> (\<Sum>d\<leftarrow>ds. sint (SntTimeSummary d))"
      using nn by (simp_all add: sum_list_sint_nonneg)
    have "Compute t' = Some r'" using c(2) by (simp add: Compute_def)
    moreover have "sint (SntSummary r) \<le> sint (SntSummary r')"
      "sint (SntFailSummary r) \<le> sint (SntFailSummary r')"
      "sint (SntTimeSummary r) \<le> sint (SntTimeSummary r')"
      using c(3-5) s by simp_all
    ultimately show "\<exists>t' r'. cycles (map Some ds) t = Ret t' \<and> Compute t' = Some r'
            \<and> sint (SntSummary r') = sint (SntSummary r) + (\<Sum>d\<leftarrow>ds. sint (SntSummary d))
            \<and> sint (SntFailSummary r')
                = sint (SntFailSummary r) + (\<Sum>d\<leftarrow>ds. sint (SntFailSummary d))
            \<and> sint (SntTimeSummary r')
                = sint (SntTimeSummary r) + (\<Sum>d\<leftarrow>ds. sint (SntTimeSummary d))
            \<and> sint (SntSummary r) \<le> sint (SntSummary r')
            \<and> sint (SntFailSummary r) \<le> sint (SntFailSummary r')
            \<and> sint (SntTimeSummary r) \<le> sint (SntTimeSummary r')"
      using c by blast
  qed
qed

theorem ping_counters_witness:
  "ping (Some sample_ten) (this sched0) = Ret ((this sched0)\<lparr>result := Some sample_ten\<rparr>)
   \<and> (\<exists>t' r'. cycles [Some sample_ten, Some sample_one] (this sched0) = Ret t'
        \<and> Compute t' = Some r'
        \<and> sint (SntSummary r') = 11 \<and> sint (SntFailSummary r') = 0
        \<and> sint (SntTimeSummary r') = 1100)"
proof -
  let ?r = "\<lparr>Window = (), SntSummary = 0, SntFailSummary = 0, SntTimeSummary = 0\<rparr> :: unit PingResult"
  have r: "result (this sched0) = Some ?r" by (simp add: sched0_def NewPing_def)
  note T = ping_counters[OF r, of sample_ten "[sample_ten, sample_one]"]
  have 1: "ping (Some sample_ten) (this sched0) = Ret ((this sched0)\<lparr>result := Some sample_ten\<rparr>)"
    using T[THEN conjunct1] by (simp add: sample_ten_def)
  have "\<exists>t' r'. cycles (map Some [sample_ten, sample_one]) (this sched0) = Ret t'
        \<and> Compute t' = Some r'
        \<and> sint (SntSummary r') = sint (SntSummary ?r) + (\<Sum>d\<leftarrow>[sample_ten, sample_one]. sint (SntSummary d))
        \<and> sint (SntFailSummary r')
            = sint (SntFailSummary ?r) + (\<Sum>d\<leftarrow>[sample_ten, sample_one]. sint (SntFailSummary d))
        \<and> sint (SntTimeSummary r')
            = sint (SntTimeSummary ?r) + (\<Sum>d\<leftarrow>[sample_ten, sample_one]. sint (SntTimeSummary d))
        \<and> sint (SntSummary ?r) \<le> sint (SntSummary r')
        \<and> sint (SntFailSummary ?r) \<le> sint (SntFailSummary r')
        \<and> sint (SntTimeSummary ?r) \<le> sint (SntTimeSummary r')"
    by (rule T[THEN conjunct2, rule_format]) (simp add: sample_ten_def sample_one_def)
  then obtain t' r' where o:
    "cycles (map Some [sample_ten, sample_one]) (this sched0) = Ret t'" "Compute t' = Some r'"
    "sint (SntSummary r') = sint (SntSummary ?r) + (\<Sum>d\<leftarrow>[sample_ten, sample_one]. sint (SntSummary d))"
    "sint (SntFailSummary r')
       = sint (SntFailSummary ?r) + (\<Sum>d\<leftarrow>[sample_ten, sample_one]. sint (SntFailSummary d))"
    "sint (SntTimeSummary r')
       = sint (SntTimeSummary ?r) + (\<Sum>d\<leftarrow>[sample_ten, sample_one]. sint (SntTimeSummary d))"
    by blast
  have "cycles [Some sample_ten, Some sample_one] (this sched0) = Ret t'"
    using o(1) by simp
  moreover have "sint (SntSummary r') = 11" "sint (SntFailSummary r') = 0"
    "sint (SntTimeSummary r') = 1100"
    using o(3-5) by (simp_all add: sample_ten_def sample_one_def)
  ultimately have 2: "\<exists>t' r'. cycles [Some sample_ten, Some sample_one] (this sched0) = Ret t'
        \<and> Compute t' = Some r'
        \<and> sint (SntSummary r') = 11 \<and> sint (SntFailSummary r') = 0
        \<and> sint (SntTimeSummary r') = 1100"
    using o(2) by blast
  from 1 2 show ?thesis by (rule conjI)
qed

text \<open>
  C7 as stated fails when a counter passes the largest signed 64-bit value. Both samples
  report non-negative counts; after the first the sent counter is \<open>2 ^ 63 - 1\<close>, after
  the second it is \<open>- (2 ^ 63)\<close>.
\<close>

theorem ping_counters_wrap_counterexample:
  "0 \<le> sint (SntSummary sample_max) \<and> 0 \<le> sint (SntFailSummary sample_max)
   \<and> 0 \<le> sint (SntTimeSummary sample_max)
   \<and> 0 \<le> sint (SntSummary sample_one) \<and> 0 \<le> sint (SntFailSummary sample_one)
   \<and> 0 \<le> sint (SntTimeSummary sample_one)
   \<and> cycles [Some sample_max] (this sched0) = Ret ((this sched0)\<lparr>result := Some sample_max\<rparr>)
   \<and> Compute ((this sched0)\<lparr>result := Some sample_max\<rparr>) = Some sample_max
   \<and> cycles [Some sample_max, Some sample_one] (this sched0)
       = Ret ((this sched0)\<lparr>result := Some (sample_one\<lparr>SntSummary := 9223372036854775808,
                                                          SntTimeSummary := 200\<rparr>)\<rparr>)
   \<and> Compute ((this sched0)\<lparr>result := Some (sample_one\<lparr>SntSummary := 9223372036854775808,
                                                          SntTimeSummary := 200\<rparr>)\<rparr>)
       = Some (sample_one\<lparr>SntSummary := 9223372036854775808, SntTimeSummary := 200\<rparr>)
   \<and> sint (SntSummary (sample_one\<lparr>SntSummary := 9223372036854775808, SntTimeSummary := 200\<rparr>))
       < sint (SntSummary sample_max)"
  by (simp add: sample_max_def sample_one_def sched0_def NewPing_def ping_def Compute_def)

section \<open>Stopping a scheduler\<close>

lemma sched_inv_NewPing: "sched_inv (NewPing zero n h i src itv tmo cnt lbls v6)"
  by (simp add: sched_inv_def NewPing_def MaxConcurrentJobs_def)

lemma ping_result: "ping data t = Ret t' \<Longrightarrow> result t' \<noteq> None"
  by (auto simp: ping_def split: option.splits)

lemma step_inv:
  assumes "sched_inv s" and "step e s = Some s'"
  shows "sched_inv s'"
proof (cases e)
  case Tick
  then show ?thesis using assms by (auto simp: sched_inv_def split: if_splits)
next
  case (Merge data)
  then obtain t' where "ping data (this s) = Ret t'" "0 < probing s"
    "s' = s\<lparr>this := t', probing := probing s - 1, merged := merged s + 1\<rparr>"
    using assms(2) by (auto split: if_splits go.splits)
  then show ?thesis using assms(1) ping_result[of data "this s" t'] by (auto simp: sched_inv_def)
next
  case Release
  then show ?thesis using assms by (auto simp: sched_inv_def split: if_splits)
next
  case Stop_close
  then show ?thesis using assms by (auto simp: sched_inv_def split: if_splits)
next
  case Run_exit
  then show ?thesis using assms by (auto simp: sched_inv_def split: if_splits)
next
  case Stop_return
  then show ?thesis using assms by (auto simp: sched_inv_def split: if_splits)
qed

lemma exec_inv: "sched_inv s \<Longrightarrow> exec es s = Some s' \<Longrightarrow> sched_inv s'"
proof (induction es arbitrary: s)
  case Nil
  then show ?case by simp
next
  case (Cons e es)
  then show ?case by (auto split: option.splits dest: step_inv)
qed

lemma step_stopped:
  assumes "wg s = 0" and "step e s = Some s'"
  shows "wg s' = 0 \<and> e \<noteq> Tick \<and> probing s' + merges [e] = probing s
       \<and> (merges [e] = 0 \<longrightarrow> this s' = this s)"
  using assms by (cases e) (auto split: if_splits go.splits)

lemma merges_Cons: "merges (e # es) = merges [e] + merges es"
  by (cases e) simp_all

lemma exec_stopped:
  assumes "wg s = 0" and "exec es s = Some s'"
  shows "wg s' = 0 \<and> Tick \<notin> set es \<and> probing s' + merges es = probing s
       \<and> (merges es = 0 \<longrightarrow> this s' = this s)"
  using assms
proof (induction es arbitrary: s)
  case Nil
  then show ?case by simp
next
  case (Cons e es)
  from Cons.prems(2) obtain s1 where 1: "step e s = Some s1" and 2: "exec es s1 = Some s'"
    by (auto split: option.splits)
  note a = step_stopped[OF Cons.prems(1) 1]
  from a have w: "wg s1 = 0" by blast
  note b = Cons.IH[OF w 2]
  show ?case
    unfolding merges_Cons[of e es] using a b by auto
qed

text \<open>
  C8, as the code has it. In a state reached from \<^verbatim>\<open>NewPing\<close> in which \<^verbatim>\<open>Stop\<close> has
  returned, whatever steps follow: \<^verbatim>\<open>run\<close> starts no further probe; the stored result
  is written at most once by each probe that was still running when \<^verbatim>\<open>Stop\<close> returned,
  and by nothing else; there were at most \<^verbatim>\<open>MaxConcurrentJobs\<close> of those; and when there
  was none, or none of them has merged yet, \<^verbatim>\<open>Compute\<close> returns what it returned
  when \<^verbatim>\<open>Stop\<close> returned.
\<close>

theorem Stop_then_only_running_probes_merge:
  assumes "exec es0 (NewPing zero n h i src itv tmo cnt lbls v6) = Some s"
    and "Stop_returned s"
    and "exec es s = Some s'"
  shows "Tick \<notin> set es
       \<and> probing s' + merges es = probing s
       \<and> probing s \<le> MaxConcurrentJobs
       \<and> (merges es = 0 \<longrightarrow> Compute (this s') = Compute (this s))
       \<and> (probing s = 0 \<longrightarrow> Compute (this s') = Compute (this s))"
proof -
  have i: "sched_inv s" by (rule exec_inv[OF sched_inv_NewPing assms(1)])
  then have w: "wg s = 0" using assms(2) by (simp add: sched_inv_def)
  have p: "probing s \<le> MaxConcurrentJobs" using i by (simp add: sched_inv_def)
  note e = exec_stopped[OF w assms(3)]
  from e have "probing s = 0 \<longrightarrow> merges es = 0" by linarith
  with e p show ?thesis by simp
qed

theorem Stop_then_only_running_probes_merge_witness:
  "exec [Tick, Merge (Some sample_ten), Stop_close, Run_exit, Stop_return] sched0 = Some late
   \<and> Stop_returned late
   \<and> exec [Release] late = Some (late\<lparr>merged := 0, waitChan := 0\<rparr>)
   \<and> probing late = 0
   \<and> Compute (this (late\<lparr>merged := 0, waitChan := 0\<rparr>)) = Compute (this late)"
proof -
  let ?s' = "late\<lparr>merged := 0, waitChan := 0\<rparr>"
  have 0: "exec [Tick, Merge (Some sample_ten), Stop_close, Run_exit, Stop_return]
             (NewPing () ''db1'' ''10.0.0.1'' ''10.0.0.1'' '''' 5000000000 4000000000 10
                Map.empty False) = Some late"
    by (simp add: late_def stopped_def sched0_def NewPing_def MaxConcurrentJobs_def ping_def
        sample_ten_def)
  have 1: "Stop_returned late" by (simp add: late_def stopped_def)
  have 2: "exec [Release] late = Some ?s'"
    by (simp add: late_def stopped_def)
  have 3: "probing late = 0" by (simp add: late_def)
  from Stop_then_only_running_probes_merge[OF 0 1 2] 3
  have "Compute (this ?s') = Compute (this late)" by blast
  with 0 1 2 3 show ?thesis by (simp add: sched0_def)
qed

text \<open>
  C8 as stated fails when a probe is still running while \<^verbatim>\<open>Stop\<close> returns: one tick,
  then \<^verbatim>\<open>Stop\<close> from its call to its return, then the probe of that tick merges its
  sample, and \<^verbatim>\<open>Compute\<close> no longer returns what it returned when \<^verbatim>\<open>Stop\<close> returned.
\<close>

theorem Stop_then_merge_counterexample:
  "exec [Tick, Stop_close, Run_exit, Stop_return] sched0 = Some stopped
   \<and> Stop_returned stopped
   \<and> step (Merge (Some sample_ten)) stopped = Some late
   \<and> Compute (this stopped) \<noteq> Compute (this late)"
  by (simp add: late_def stopped_def sched0_def NewPing_def MaxConcurrentJobs_def ping_def
      sample_ten_def Compute_def)

end
